theory Spec2Isabelle
  imports Complex_Main
begin

section \<open>Errors and Python/numpy primitives\<close>

text \<open>
  Exceptions of the Python source are values.  \<open>ValueError\<close> and \<open>IndexError\<close> are the
  exceptions of \<open>list.index\<close>, of subscripting and of numpy's index assignment and
  \<open>np.concatenate\<close>; \<open>TypeError\<close> is raised by subscripting \<open>None\<close>;
  \<open>NameError n\<close> is the exception Python raises when the global name \<open>n\<close> is looked
  up in the module \<open>EMaligner.py\<close> and is bound neither there nor in the builtins;
  \<open>AttributeError n\<close> is raised by \<open>self.n\<close> when the class has no attribute \<open>n\<close>;
  \<open>KeyError k\<close> by subscripting a dictionary without the key \<open>k\<close>; \<open>External\<close>
  stands for any exception coming out of a collaborator that lives outside this module
  (database access, the transform model, the solver).
\<close>

datatype error =
  ValueError | IndexError | TypeError | NameError string | AttributeError string |
  KeyError string | External

text \<open>\<open>xs.index(x)\<close> of a Python list: the first position holding \<open>x\<close>, ValueError if none.\<close>

fun list_index :: "'a list \<Rightarrow> 'a \<Rightarrow> error + nat" where
  "list_index [] x = Inl ValueError"
| "list_index (y # ys) x =
     (if y = x then Inr 0
      else (case list_index ys x of Inl e \<Rightarrow> Inl e | Inr i \<Rightarrow> Inr (Suc i)))"

text \<open>\<open>xs[i]\<close> for a non-negative index \<open>i\<close>: IndexError when out of range.\<close>

definition subscript :: "'a list \<Rightarrow> nat \<Rightarrow> error + 'a" where
  "subscript xs i = (if i < length xs then Inr (xs ! i) else Inl IndexError)"

section \<open>Pair weight factor (\<open>tilepair_weight\<close>, lines 174-185)\<close>

text \<open>
  The \<open>matrix_assembly\<close> dictionary of the configuration.  Weights are float64 values in
  the source; the model keeps the weight type \<open>'w\<close> abstract.  Section values \<open>z1\<close>,
  \<open>z2\<close> are section indices and are modelled as integers, so \<open>int(np.abs(z1 - z2))\<close>
  is \<open>\<bar>z1 - z2\<bar>\<close>.
\<close>

record 'w matrix_assembly =
  depth :: "int list"
  explicit_weight_by_depth :: "'w list option"
  montage_pt_weight :: 'w
  cross_pt_weight :: 'w
  inverse_dz :: bool
  npts_min :: nat
  npts_max :: nat
  choose_random :: bool

text \<open>
  The only arithmetic on weights in \<open>tilepair_weight\<close> is the float division
  \<open>tp_weight/(np.abs(z2 - z1) + 1)\<close>; it is the parameter \<open>fdiv\<close>, applied to the weight
  and the integer divisor.
\<close>

definition tilepair_weight ::
  "('w \<Rightarrow> int \<Rightarrow> 'w) \<Rightarrow> int \<Rightarrow> int \<Rightarrow> 'w matrix_assembly \<Rightarrow> error + 'w" where
  "tilepair_weight fdiv z1 z2 ma =
     (case explicit_weight_by_depth ma of
        Some tbl \<Rightarrow>
          (case list_index (depth ma) \<bar>z1 - z2\<bar> of
             Inl e \<Rightarrow> Inl e
           | Inr ind \<Rightarrow> subscript tbl ind)
      | None \<Rightarrow>
          Inr (if z1 = z2 then montage_pt_weight ma
               else if inverse_dz ma then fdiv (cross_pt_weight ma) (\<bar>z2 - z1\<bar> + 1)
               else cross_pt_weight ma))"

section \<open>Assembly chunks and their merge (lines 468-509)\<close>

text \<open>
  The chunk dictionary built by \<open>calculate_processing_chunk\<close> (lines 32-39).  Its keys
  \<open>data\<close>, \<open>indices\<close>, \<open>indptr\<close> and \<open>weights\<close> are set together: all four are
  \<open>None\<close> (lines 34-37) or all four are arrays (lines 162-165).  The model keeps the four
  arrays in one optional record, so that the test \<open>chunk['data'] is None\<close> of the source is
  \<open>arrays c = None\<close>.  Values are float64 (type \<open>'a\<close>, kept abstract), column indices
  and row pointers are int64 (modelled as unbounded integers: the entries are bounded by
  array sizes, far below \<open>2^63\<close>).
\<close>

record ('a, 'w) csr_arrays =
  data :: "'a list"
  indices :: "int list"
  indptr :: "int list"
  weights :: "'w list"

record ('a, 'w) chunk =
  tiles_used :: "bool list"
  arrays :: "('a, 'w) csr_arrays option"
  nchunks :: nat
  zlist :: "int list"

text \<open>The four keys as the source reads them: \<open>None\<close> or an array.\<close>

definition chunk_data :: "('a, 'w) chunk \<Rightarrow> 'a list option" where
  "chunk_data c = map_option data (arrays c)"

definition chunk_indices :: "('a, 'w) chunk \<Rightarrow> int list option" where
  "chunk_indices c = map_option indices (arrays c)"

definition chunk_indptr :: "('a, 'w) chunk \<Rightarrow> int list option" where
  "chunk_indptr c = map_option indptr (arrays c)"

definition chunk_weights :: "('a, 'w) chunk \<Rightarrow> 'w list option" where
  "chunk_weights c = map_option weights (arrays c)"

text \<open>\<open>xs[-1]\<close>: the last element, IndexError on an empty array.\<close>

definition last_elem :: "'a list \<Rightarrow> error + 'a" where
  "last_elem xs = (if xs = [] then Inl IndexError else Inr (last xs))"

subsection \<open>\<open>concatenate_chunks\<close> (lines 468-482)\<close>

text \<open>
  The \<open>while\<close> loop of lines 469-473: the index of the first chunk whose data is not
  \<open>None\<close>, or the last index when there is none.  \<open>chunks[i]\<close> raises IndexError on an
  empty list.
\<close>

function find_start :: "('a, 'w) chunk list \<Rightarrow> nat \<Rightarrow> error + nat" where
  "find_start chunks i =
     (if length chunks \<le> i then Inl IndexError
      else if arrays (chunks ! i) = None then
        (if i = length chunks - 1 then Inr i else find_start chunks (i + 1))
      else Inr i)"
  by pat_completeness auto
termination
  by (relation "measure (\<lambda>(chunks, i). length chunks - i)") auto

declare find_start.simps [simp del]

text \<open>
  One iteration of the \<open>for\<close> loop (lines 476-481) on the accumulator \<open>c0\<close> and the
  chunk \<open>c\<close>.  The keys \<open>data\<close>, \<open>weights\<close>, \<open>indices\<close>, \<open>zlist\<close> of \<open>c0\<close> are replaced by
  \<open>np.append(c0[ckey], c[ckey])\<close>, then \<open>indptr\<close> by
  \<open>np.append(c0['indptr'], c['indptr'][1:] + lastptr)\<close> with
  \<open>lastptr = c0['indptr'][-1]\<close>.  When \<open>c0\<close> still holds \<open>None\<close> arrays, line 480
  subscripts \<open>None\<close>, a TypeError.
\<close>

definition merge_step ::
  "('a, 'w) chunk \<Rightarrow> ('a, 'w) chunk \<Rightarrow> error + ('a, 'w) chunk" where
  "merge_step c0 c =
     (case arrays c of
        None \<Rightarrow> Inr c0
      | Some a \<Rightarrow>
          (case arrays c0 of
             None \<Rightarrow> Inl TypeError
           | Some a0 \<Rightarrow>
               (case last_elem (indptr a0) of
                  Inl e \<Rightarrow> Inl e
                | Inr lastptr \<Rightarrow>
                    Inr (c0\<lparr>arrays := Some
                              \<lparr>data = data a0 @ data a,
                               indices = indices a0 @ indices a,
                               indptr = indptr a0 @ map (\<lambda>p. p + lastptr) (tl (indptr a)),
                               weights = weights a0 @ weights a\<rparr>,
                            zlist := zlist c0 @ zlist c\<rparr>))))"

fun merge_loop ::
  "('a, 'w) chunk \<Rightarrow> ('a, 'w) chunk list \<Rightarrow> error + ('a, 'w) chunk" where
  "merge_loop c0 [] = Inr c0"
| "merge_loop c0 (c # cs) =
     (case merge_step c0 c of Inl e \<Rightarrow> Inl e | Inr c0' \<Rightarrow> merge_loop c0' cs)"

text \<open>
  \<open>c0 = chunks[i]\<close> is the dictionary stored in the caller's list, not a copy: every
  assignment \<open>c0[ckey] = ...\<close> writes into element \<open>i\<close> of that list.  The model therefore
  returns the list as it stands after the call together with the returned \<open>c0\<close>.  The
  slice \<open>chunks[(i + 1):]\<close> is \<open>drop (i + 1) chunks\<close>; the elements of the list are
  distinct dictionaries (each is the return value of one worker call), so the accumulator
  is none of them.
\<close>

definition concatenate_chunks ::
  "('a, 'w) chunk list \<Rightarrow> error + (('a, 'w) chunk list \<times> ('a, 'w) chunk)" where
  "concatenate_chunks chunks =
     (case find_start chunks 0 of
        Inl e \<Rightarrow> Inl e
      | Inr i \<Rightarrow>
          (case merge_loop (chunks ! i) (drop (i + 1) chunks) of
             Inl e \<Rightarrow> Inl e
           | Inr c0 \<Rightarrow> Inr (chunks[i := c0], c0)))"

subsection \<open>\<open>concatenate_results\<close> (lines 485-509)\<close>

text \<open>\<open>np.concatenate\<close> of a list of arrays: ValueError on the empty list.\<close>

definition np_concatenate :: "'a list list \<Rightarrow> error + 'a list" where
  "np_concatenate xss = (if xss = [] then Inl ValueError else Inr (concat xss))"

text \<open>\<open>np.cumsum\<close>, with the running total as accumulator.\<close>

fun cumsum_from :: "int \<Rightarrow> int list \<Rightarrow> int list" where
  "cumsum_from acc [] = []"
| "cumsum_from acc (x # xs) = (acc + x) # cumsum_from (acc + x) xs"

text \<open>\<open>[i[-1] for i in ptrs]\<close>: IndexError at the first empty array.\<close>

fun last_elems :: "int list list \<Rightarrow> error + int list" where
  "last_elems [] = Inr []"
| "last_elems (p # ps) =
     (case last_elem p of
        Inl e \<Rightarrow> Inl e
      | Inr l \<Rightarrow> (case last_elems ps of Inl e \<Rightarrow> Inl e | Inr ls \<Rightarrow> Inr (l # ls)))"

text \<open>
  Lines 505-507: \<open>j if i == 0 else j[1:] + indptr_cumends[i-1]\<close> over
  \<open>enumerate(result['indptr'])\<close>.
\<close>

definition rebase_indptr :: "int list \<Rightarrow> int list list \<Rightarrow> int list list" where
  "rebase_indptr cumends ptrs =
     map (\<lambda>(i, j). if i = 0 then j else map (\<lambda>p. p + cumends ! (i - 1)) (tl j))
         (enumerate 0 ptrs)"

text \<open>
  The comprehensions select the chunks whose data is not \<open>None\<close>.  The result dictionary
  has the keys \<open>data\<close>, \<open>weights\<close>, \<open>indices\<close>, \<open>indptr\<close> (the first component) and
  \<open>zlist\<close> (the second).  The function builds new arrays only; nothing is assigned into
  the input list or its chunks.
\<close>

definition concatenate_results ::
  "('a, 'w) chunk list \<Rightarrow> error + (('a, 'w) csr_arrays \<times> int list)" where
  "concatenate_results results =
     (let sel = filter (\<lambda>c. arrays c \<noteq> None) results;
          arrs = List.map_filter arrays results
      in case np_concatenate (map data arrs) of
           Inl e \<Rightarrow> Inl e
         | Inr d \<Rightarrow>
      (case np_concatenate (map weights arrs) of
           Inl e \<Rightarrow> Inl e
         | Inr w \<Rightarrow>
      (case np_concatenate (map indices arrs) of
           Inl e \<Rightarrow> Inl e
         | Inr ind \<Rightarrow>
      (case np_concatenate (map zlist sel) of
           Inl e \<Rightarrow> Inl e
         | Inr z \<Rightarrow>
      (case last_elems (map indptr arrs) of
           Inl e \<Rightarrow> Inl e
         | Inr lasts \<Rightarrow>
      (case np_concatenate (rebase_indptr (cumsum_from 0 lasts) (map indptr arrs)) of
           Inl e \<Rightarrow> Inl e
         | Inr ptr \<Rightarrow>
             Inr (\<lparr>data = d, indices = ind, indptr = ptr, weights = w\<rparr>, z)))))))"

subsection \<open>The merge as the specification words it\<close>

text \<open>
  Section 4.3 of the specification: the accumulator is seeded with the first non-empty
  chunk; each subsequent non-empty chunk has its value, column-index and weight arrays
  appended verbatim, and its row-pointer array appended with all entries except the
  leading zero offset by the accumulator's current final row-pointer value.
\<close>

fun merge_spec ::
  "('a, 'w) csr_arrays \<Rightarrow> ('a, 'w) csr_arrays list \<Rightarrow> ('a, 'w) csr_arrays" where
  "merge_spec acc [] = acc"
| "merge_spec acc (c # cs) =
     merge_spec \<lparr>data = data acc @ data c,
                 indices = indices acc @ indices c,
                 indptr = indptr acc @ map (\<lambda>p. p + last (indptr acc)) (tl (indptr c)),
                 weights = weights acc @ weights c\<rparr> cs"

section \<open>Chunk assembly (\<open>calculate_processing_chunk\<close>, lines 24-171)\<close>

subsection \<open>numpy primitives used by the assembly\<close>

text \<open>\<open>np.in1d(xs, ys)\<close>: for each element of \<open>xs\<close>, whether it occurs in \<open>ys\<close>.\<close>

definition in1d :: "'x list \<Rightarrow> 'x list \<Rightarrow> bool list" where
  "in1d xs ys = map (\<lambda>x. x \<in> set ys) xs"

text \<open>\<open>xs[flags]\<close> for a boolean array of the same length: the elements at \<open>True\<close>.\<close>

definition compress :: "bool list \<Rightarrow> 'x list \<Rightarrow> 'x list" where
  "compress flags xs = map snd (filter fst (zip flags xs))"

text \<open>
  \<open>np.argsort(a)\<close>: a permutation of the positions of \<open>a\<close> that lists its elements in
  ascending order.  numpy's default sort is not stable, so for an array with repeated
  elements the order among equal elements is numpy's choice; the model lists equal
  elements in their original order.  On an array without repetitions there is only one
  sorting permutation.
\<close>

definition argsort :: "'x::linorder list \<Rightarrow> nat list" where
  "argsort a = sort_key (\<lambda>i. a ! i) [0..<length a]"

text \<open>
  \<open>np.searchsorted(a, v, sorter=sorter)\<close> with the default \<open>side='left'\<close>: numpy's binary
  search over the positions \<open>lo..hi\<close> of \<open>a\<close> read through \<open>sorter\<close>.
\<close>

function bisect_left :: "'x::linorder list \<Rightarrow> nat list \<Rightarrow> 'x \<Rightarrow> nat \<Rightarrow> nat \<Rightarrow> nat" where
  "bisect_left a sorter v lo hi =
     (if lo < hi then
        (let mid = lo + (hi - lo) div 2
         in if a ! (sorter ! mid) < v then bisect_left a sorter v (mid + 1) hi
            else bisect_left a sorter v lo mid)
      else lo)"
  by pat_completeness auto
termination
  by (relation "measure (\<lambda>(a, sorter, v, lo, hi). hi - lo)") auto

declare bisect_left.simps [simp del]

definition searchsorted :: "'x::linorder list \<Rightarrow> 'x \<Rightarrow> nat list \<Rightarrow> nat" where
  "searchsorted a v sorter = bisect_left a sorter v 0 (length a)"

text \<open>
  \<open>sorter[np.searchsorted(tile_ids, ids, sorter=sorter)]\<close> (lines 87-88), element by
  element; subscripting \<open>sorter\<close> at \<open>len(sorter)\<close> is an IndexError.
\<close>

fun lookup_indices :: "'x::linorder list \<Rightarrow> nat list \<Rightarrow> 'x list \<Rightarrow> error + nat list" where
  "lookup_indices a sorter [] = Inr []"
| "lookup_indices a sorter (v # vs) =
     (case subscript sorter (searchsorted a v sorter) of
        Inl e \<Rightarrow> Inl e
      | Inr i \<Rightarrow>
          (case lookup_indices a sorter vs of
             Inl e \<Rightarrow> Inl e
           | Inr is \<Rightarrow> Inr (i # is)))"

text \<open>
  \<open>buf[np.arange(n) + off] = vals\<close>: \<open>vals\<close> must have \<open>n\<close> elements or broadcast
  from one element (ValueError otherwise), and the index array must lie inside \<open>buf\<close>
  (IndexError).  numpy broadcasts the value against the index before it checks the index
  against the array, so a value of the wrong shape is reported first.  An empty index
  array assigns nothing.
\<close>

definition assign_range :: "'x list \<Rightarrow> nat \<Rightarrow> nat \<Rightarrow> 'x list \<Rightarrow> error + 'x list" where
  "assign_range buf off n vals =
     (if length vals \<noteq> n \<and> length vals \<noteq> 1 then Inl ValueError
      else if 0 < n \<and> length buf < off + n then Inl IndexError
      else if length vals = n then Inr (take off buf @ vals @ drop (off + n) buf)
      else Inr (take off buf @ replicate n (hd vals) @ drop (off + n) buf))"

text \<open>\<open>flags[i] = True\<close> on a boolean array.\<close>

definition set_true :: "bool list \<Rightarrow> nat \<Rightarrow> error + bool list" where
  "set_true flags i = (if i < length flags then Inr (flags[i := True]) else Inl IndexError)"

subsection \<open>Point matches and the transform model\<close>

text \<open>
  A point match is a dictionary with the keys \<open>pId\<close> and \<open>qId\<close> (the tile identifiers)
  and the matched points, which only the transform model reads; they are the extension
  part of the record.  Tile identifiers are strings ordered by numpy's comparison; the
  model needs only that they are linearly ordered.
\<close>

record 'x pointmatch =
  pId :: 'x
  qId :: 'x

text \<open>
  \<open>AlignerTransform\<close> lives in another module; the assembly uses its constants
  \<open>nnz_per_row\<close> and \<open>rows_per_ptmatch\<close> and its method \<open>CSR_from_tilepair\<close>, which
  returns \<open>(d, ind, iptr, wts, npts)\<close>, with \<open>d\<close> \<open>None\<close> when the match is to be skipped.
  The method is a parameter of the model.  Its first argument is the loop counter \<open>k\<close>:
  with \<open>choose_random\<close> the method draws a random subsample, so two calls on equal
  arguments need not agree; the remaining arguments are those of line 124-130.
\<close>

type_synonym ('a, 'w) subblock = "'a list \<times> int list \<times> int list \<times> 'w list \<times> nat"

record ('m, 'a, 'w) transform =
  nnz_per_row :: nat
  rows_per_ptmatch :: nat
  CSR_from_tilepair ::
    "nat \<Rightarrow> 'm \<Rightarrow> nat \<Rightarrow> nat \<Rightarrow> nat \<Rightarrow> nat \<Rightarrow> bool \<Rightarrow> ('a, 'w) subblock option"

subsection \<open>The assembly loop (lines 122-153)\<close>

text \<open>The arrays the loop writes into, and the row counter.\<close>

record ('a, 'w) buffers =
  used :: "bool list"
  buf_data :: "'a list"
  buf_indices :: "int list"
  buf_indptr :: "int list"
  buf_weights :: "'w list"
  nrows :: nat

text \<open>
  Lines 135-153 for one sub-block: mark both tiles, write values and column indices at
  offset \<open>nrows * nnz_per_row\<close>, the weights scaled by the pair weight factor at offset
  \<open>nrows\<close>, the row pointers shifted by \<open>indptr[nrows]\<close> at offset \<open>nrows + 1\<close>, and
  advance \<open>nrows\<close> by \<open>wts.size\<close>.  The float product \<open>wts * tilepair_weightfac\<close> is the
  parameter \<open>fmul\<close>.
\<close>

definition splice_block ::
  "('w \<Rightarrow> 'w \<Rightarrow> 'w) \<Rightarrow> ('m, 'a, 'w) transform \<Rightarrow> 'w \<Rightarrow> nat \<Rightarrow> nat \<Rightarrow>
   ('a, 'w) subblock \<Rightarrow> ('a, 'w) buffers \<Rightarrow> error + ('a, 'w) buffers" where
  "splice_block fmul tf fac p q blk st =
     (case blk of (d, ind, iptr, wts, npts) \<Rightarrow>
      (case set_true (used st) p of Inl e \<Rightarrow> Inl e | Inr u1 \<Rightarrow>
      (case set_true u1 q of Inl e \<Rightarrow> Inl e | Inr u2 \<Rightarrow>
      (case assign_range (buf_data st) (nrows st * nnz_per_row tf)
              (npts * rows_per_ptmatch tf * nnz_per_row tf) d of
         Inl e \<Rightarrow> Inl e | Inr data' \<Rightarrow>
      (case assign_range (buf_indices st) (nrows st * nnz_per_row tf)
              (npts * rows_per_ptmatch tf * nnz_per_row tf) ind of
         Inl e \<Rightarrow> Inl e | Inr indices' \<Rightarrow>
      (case assign_range (buf_weights st) (nrows st) (npts * rows_per_ptmatch tf)
              (map (\<lambda>w. fmul w fac) wts) of
         Inl e \<Rightarrow> Inl e | Inr weights' \<Rightarrow>
      (case subscript (buf_indptr st) (nrows st) of Inl e \<Rightarrow> Inl e | Inr base \<Rightarrow>
      (case assign_range (buf_indptr st) (nrows st + 1) (npts * rows_per_ptmatch tf)
              (map (\<lambda>x. x + base) iptr) of
         Inl e \<Rightarrow> Inl e | Inr indptr' \<Rightarrow>
           Inr \<lparr>used = u2, buf_data = data', buf_indices = indices',
                buf_indptr = indptr', buf_weights = weights',
                nrows = nrows st + length wts\<rparr>))))))))"

text \<open>
  The \<open>for k in np.arange(nmatches)\<close> loop over the surviving matches with their
  resolved indices; a match whose sub-block is \<open>None\<close> is skipped (line 132-133).
\<close>

fun assemble_loop ::
  "('w \<Rightarrow> 'w \<Rightarrow> 'w) \<Rightarrow> ('m, 'a, 'w) transform \<Rightarrow> 'w matrix_assembly \<Rightarrow> 'w \<Rightarrow> nat \<Rightarrow>
   ('m \<times> nat \<times> nat) list \<Rightarrow> ('a, 'w) buffers \<Rightarrow> error + ('a, 'w) buffers" where
  "assemble_loop fmul tf ma fac k [] st = Inr st"
| "assemble_loop fmul tf ma fac k ((m, p, q) # rest) st =
     (case CSR_from_tilepair tf k m p q (npts_min ma) (npts_max ma) (choose_random ma) of
        None \<Rightarrow> assemble_loop fmul tf ma fac (Suc k) rest st
      | Some blk \<Rightarrow>
          (case splice_block fmul tf fac p q blk st of
             Inl e \<Rightarrow> Inl e
           | Inr st' \<Rightarrow> assemble_loop fmul tf ma fac (Suc k) rest st'))"

subsection \<open>Filtering and resolving the matches (lines 55-88)\<close>

definition instack :: "'x list \<Rightarrow> ('x, 'z) pointmatch_scheme list \<Rightarrow> bool list" where
  "instack tile_ids matches =
     map2 (\<and>) (in1d (map pId matches) tile_ids) (in1d (map qId matches) tile_ids)"

definition surviving ::
  "'x list \<Rightarrow> ('x, 'z) pointmatch_scheme list \<Rightarrow> ('x, 'z) pointmatch_scheme list" where
  "surviving tile_ids matches = compress (instack tile_ids matches) matches"

definition pinds :: "'x::linorder list \<Rightarrow> ('x, 'z) pointmatch_scheme list \<Rightarrow> error + nat list" where
  "pinds tile_ids matches =
     lookup_indices tile_ids (argsort tile_ids)
       (compress (instack tile_ids matches) (map pId matches))"

definition qinds :: "'x::linorder list \<Rightarrow> ('x, 'z) pointmatch_scheme list \<Rightarrow> error + nat list" where
  "qinds tile_ids matches =
     lookup_indices tile_ids (argsort tile_ids)
       (compress (instack tile_ids matches) (map qId matches))"

subsection \<open>The whole function\<close>

text \<open>
  The arguments are those of \<open>fargs\<close> that the function reads: the pair's \<open>z1\<close> and
  \<open>z2\<close>, the \<open>matrix_assembly\<close> settings, the tile identifiers; the transform built at
  line 93; and \<open>matches\<close>, the list \<open>utils.get_matches\<close> returned for the pair's two
  sections (the database connection and the query are outside this module).  Logging and
  timing have no effect on the result.
\<close>

definition empty_chunk :: "nat \<Rightarrow> ('a, 'w) chunk" where
  "empty_chunk n = \<lparr>tiles_used = replicate n False, arrays = None, nchunks = 0, zlist = []\<rparr>"

definition calculate_processing_chunk ::
  "('w \<Rightarrow> int \<Rightarrow> 'w) \<Rightarrow> ('w \<Rightarrow> 'w \<Rightarrow> 'w) \<Rightarrow> (('x, 'z) pointmatch_scheme, 'a, 'w) transform \<Rightarrow>
   ('x, 'z) pointmatch_scheme list \<Rightarrow> int \<Rightarrow> int \<Rightarrow> 'w matrix_assembly \<Rightarrow>
   'x::linorder list \<Rightarrow> error + ('a::zero, 'w::zero) chunk" where
  "calculate_processing_chunk fdiv fmul tf matches z1 z2 ma tile_ids =
     (if length matches = 0 then Inr (empty_chunk (length tile_ids))
      else if length (surviving tile_ids matches) = 0
      then Inr (empty_chunk (length tile_ids))
      else
        (case pinds tile_ids matches of Inl e \<Rightarrow> Inl e | Inr ps \<Rightarrow>
        (case qinds tile_ids matches of Inl e \<Rightarrow> Inl e | Inr qs \<Rightarrow>
        (let nmatches = length (surviving tile_ids matches);
             nd = nnz_per_row tf * rows_per_ptmatch tf * npts_max ma * nmatches;
             ni = rows_per_ptmatch tf * npts_max ma * nmatches
         in
        (case tilepair_weight fdiv z1 z2 ma of Inl e \<Rightarrow> Inl e | Inr fac \<Rightarrow>
        (case assemble_loop fmul tf ma fac 0
                (zip (surviving tile_ids matches) (zip ps qs))
                \<lparr>used = replicate (length tile_ids) False,
                 buf_data = replicate nd 0, buf_indices = replicate nd 0,
                 buf_indptr = replicate (ni + 1) 0, buf_weights = replicate ni 0,
                 nrows = 0\<rparr> of
           Inl e \<Rightarrow> Inl e
         | Inr st \<Rightarrow>
             Inr \<lparr>tiles_used = used st,
                  arrays = Some
                    \<lparr>data = take (nrows st * nnz_per_row tf) (buf_data st),
                     indices = take (nrows st * nnz_per_row tf) (buf_indices st),
                     indptr = take (nrows st + 1) (buf_indptr st),
                     weights = take (nrows st) (buf_weights st)\<rparr>,
                  nchunks = 0, zlist = [z1, z2]\<rparr>))))))"

subsection \<open>The sub-blocks a chunk is assembled from\<close>

text \<open>
  The sub-blocks that the transform model returns for the surviving matches, in loop
  order: these are the entries spliced in during assembly.
\<close>

fun spliced_blocks ::
  "('m, 'a, 'w) transform \<Rightarrow> 'w matrix_assembly \<Rightarrow> nat \<Rightarrow> ('m \<times> nat \<times> nat) list \<Rightarrow>
   ('a, 'w) subblock list" where
  "spliced_blocks tf ma k [] = []"
| "spliced_blocks tf ma k ((m, p, q) # rest) =
     (case CSR_from_tilepair tf k m p q (npts_min ma) (npts_max ma) (choose_random ma) of
        None \<Rightarrow> spliced_blocks tf ma (Suc k) rest
      | Some blk \<Rightarrow> blk # spliced_blocks tf ma (Suc k) rest)"

definition chunk_blocks ::
  "(('x, 'z) pointmatch_scheme, 'a, 'w) transform \<Rightarrow> 'w matrix_assembly \<Rightarrow>
   'x::linorder list \<Rightarrow> ('x, 'z) pointmatch_scheme list \<Rightarrow> ('a, 'w) subblock list" where
  "chunk_blocks tf ma tile_ids matches =
     (case pinds tile_ids matches of
        Inl e \<Rightarrow> []
      | Inr ps \<Rightarrow>
          (case qinds tile_ids matches of
             Inl e \<Rightarrow> []
           | Inr qs \<Rightarrow>
               spliced_blocks tf ma 0 (zip (surviving tile_ids matches) (zip ps qs))))"

text \<open>
  The contract of the transform model that the assembly relies on: the arrays of a
  sub-block have consistent lengths (\<open>npts * rows_per_ptmatch\<close> rows with one weight
  each, \<open>nnz_per_row\<close> values and column indices per row), and every row has exactly
  \<open>nnz_per_row\<close> non-zeros, so the local row pointers are the multiples of \<open>nnz_per_row\<close>.
\<close>

definition block_ok :: "('m, 'a, 'w) transform \<Rightarrow> ('a, 'w) subblock \<Rightarrow> bool" where
  "block_ok tf blk =
     (case blk of (d, ind, iptr, wts, npts) \<Rightarrow>
        length d = npts * rows_per_ptmatch tf * nnz_per_row tf \<and>
        length ind = npts * rows_per_ptmatch tf * nnz_per_row tf \<and>
        length wts = npts * rows_per_ptmatch tf \<and>
        iptr = map (\<lambda>j. int ((j + 1) * nnz_per_row tf)) [0..<npts * rows_per_ptmatch tf])"

text \<open>The value, column-index and weight arrays of a sub-block.\<close>

definition block_values :: "('a, 'w) subblock \<Rightarrow> 'a list" where
  "block_values blk = (case blk of (d, ind, iptr, wts, npts) \<Rightarrow> d)"

definition block_columns :: "('a, 'w) subblock \<Rightarrow> int list" where
  "block_columns blk = (case blk of (d, ind, iptr, wts, npts) \<Rightarrow> ind)"

definition block_weights :: "('a, 'w) subblock \<Rightarrow> 'w list" where
  "block_weights blk = (case blk of (d, ind, iptr, wts, npts) \<Rightarrow> wts)"

text \<open>
  The invariant of the assembly loop: the first \<open>nrows\<close> rows of the buffers hold the
  values \<open>D\<close>, the column indices \<open>I\<close> and the weights \<open>W\<close> written so far, and the
  first \<open>nrows + 1\<close> row pointers are the multiples of \<open>nnz_per_row\<close>.
\<close>

definition assembled ::
  "('m, 'a, 'w) transform \<Rightarrow> ('a, 'w) buffers \<Rightarrow> 'a list \<Rightarrow> int list \<Rightarrow> 'w list \<Rightarrow> bool" where
  "assembled tf st D I W \<longleftrightarrow>
     nrows st * nnz_per_row tf \<le> length (buf_data st) \<and>
     take (nrows st * nnz_per_row tf) (buf_data st) = D \<and>
     nrows st * nnz_per_row tf \<le> length (buf_indices st) \<and>
     take (nrows st * nnz_per_row tf) (buf_indices st) = I \<and>
     nrows st \<le> length (buf_weights st) \<and>
     take (nrows st) (buf_weights st) = W \<and>
     nrows st < length (buf_indptr st) \<and>
     take (nrows st + 1) (buf_indptr st) =
       map (\<lambda>j. int (j * nnz_per_row tf)) [0..<nrows st + 1]"

section \<open>Building the system (\<open>create_CSR_A\<close>, lines 512-565)\<close>

text \<open>
  \<open>a | b\<close> on two boolean arrays: element-wise on equal lengths, an array of one element
  broadcasts, any other pair of lengths is a ValueError.
\<close>

definition logical_or :: "bool list \<Rightarrow> bool list \<Rightarrow> error + bool list" where
  "logical_or a b =
     (if length a = length b then Inr (map2 (\<or>) a b)
      else if length a = 1 then Inr (map (\<lambda>y. hd a \<or> y) b)
      else if length b = 1 then Inr (map (\<lambda>x. x \<or> hd b) a)
      else Inl ValueError)"

text \<open>Lines 535-537: the loop over \<open>results[1:]\<close>.\<close>

fun or_loop :: "bool list \<Rightarrow> ('a, 'w) chunk list \<Rightarrow> error + bool list" where
  "or_loop acc [] = Inr acc"
| "or_loop acc (r # rs) =
     (case logical_or acc (tiles_used r) of
        Inl e \<Rightarrow> Inl e
      | Inr acc' \<Rightarrow> or_loop acc' rs)"

text \<open>Lines 534-537; \<open>results[0]\<close> on an empty array of results is an IndexError.\<close>

definition union_tiles_used :: "('a, 'w) chunk list \<Rightarrow> error + bool list" where
  "union_tiles_used results =
     (case results of
        [] \<Rightarrow> Inl IndexError
      | r # rs \<Rightarrow> or_loop (tiles_used r) rs)"

text \<open>
  What the function reads of a tile specification \<open>t\<close> of \<open>resolved.tilespecs\<close>: its
  identifier, and of its last transform \<open>t.tforms[-1]\<close> the solve vector, the
  regularization vector for the configured regularization and the number of degrees of
  freedom.
\<close>

record ('x, 'v) tilespec =
  tileId :: 'x
  to_solve_vec :: "'v list"
  regularization :: "'v list"
  DOF_per_tile :: nat

text \<open>
  Lines 559-561: \<open>np.repeat(tiles_used[i], DOF_per_tile)\<close> for every tile \<open>i\<close>,
  concatenated: one boolean per column of the merged matrix.
\<close>

definition slice_ind :: "bool list \<Rightarrow> ('x, 'v) tilespec list \<Rightarrow> error + bool list" where
  "slice_ind used_mask tilespecs =
     (if length used_mask < length tilespecs then Inl IndexError
      else np_concatenate
             (map (\<lambda>i. replicate (DOF_per_tile (tilespecs ! i)) (used_mask ! i))
                  [0..<length tilespecs]))"

text \<open>\<open>flags.nonzero()\<close>: the positions of the \<open>True\<close> entries, ascending.\<close>

definition nonzero :: "bool list \<Rightarrow> nat list" where
  "nonzero flags = filter (\<lambda>j. flags ! j) [0..<length flags]"

subsection \<open>The scipy matrix\<close>

text \<open>
  A scipy sparse matrix in CSR format, as far as the function uses it: the number of
  columns and, for every row, its stored entries (column index and value) in storage
  order.  The number of rows is the number of entry lists.
\<close>

record 'a spmatrix =
  n_cols :: nat
  row_entries :: "(int \<times> 'a) list list"

text \<open>\<open>xs[ptr[r]:ptr[r + 1]]\<close>, the part of an array that belongs to row \<open>r\<close>.\<close>

definition segment :: "int list \<Rightarrow> nat \<Rightarrow> 'x list \<Rightarrow> 'x list" where
  "segment ptr r xs = take (nat (ptr ! (r + 1)) - nat (ptr ! r)) (drop (nat (ptr ! r)) xs)"

text \<open>
  \<open>csr_matrix((data, indices, indptr))\<close> without a shape (lines 550-553).  scipy infers
  the shape: \<open>len(indptr) - 1\<close> rows and \<open>indices.max() + 1\<close> columns, a ValueError when
  that cannot be computed or is negative.  Its format check then requires the row pointers
  to start with 0, as many column indices as values, and a last row pointer that does not
  exceed their number (ValueError otherwise).
\<close>

definition csr_matrix :: "'a list \<Rightarrow> int list \<Rightarrow> int list \<Rightarrow> error + 'a spmatrix" where
  "csr_matrix dat ind ptr =
     (if ptr = [] \<or> ind = [] then Inl ValueError
      else if Max (set ind) + 1 < 0 then Inl ValueError
      else if hd ptr \<noteq> 0 then Inl ValueError
      else if length ind \<noteq> length dat then Inl ValueError
      else if int (length ind) < last ptr then Inl ValueError
      else Inr \<lparr>n_cols = nat (Max (set ind) + 1),
                row_entries = map (\<lambda>r. zip (segment ptr r ind) (segment ptr r dat))
                                  [0..<length ptr - 1]\<rparr>)"

text \<open>
  \<open>A[:, flags]\<close> with a boolean array (line 562).  scipy turns the array into the
  positions of its \<open>True\<close> entries and returns the matrix of those columns: an entry of
  \<open>A\<close> in a selected column stays in its row, in storage order, with the column index
  renumbered to the column's position in the selection; all other entries are dropped.
  What scipy accepts as a boolean index differs between releases and is a parameter of
  the model: recent releases require the array to have one entry per column of \<open>A\<close>
  (\<open>LengthMustMatch\<close>); older ones only require every selected position to be a column
  of \<open>A\<close> (\<open>IndicesInRange\<close>).  Either way a rejected index is an IndexError.
\<close>

datatype index_rule = LengthMustMatch | IndicesInRange

definition keep_columns :: "nat list \<Rightarrow> (int \<times> 'a) list \<Rightarrow> (int \<times> 'a) list" where
  "keep_columns kept row =
     map (\<lambda>(c, v). (int (length (filter (\<lambda>j. int j < c) kept)), v))
         (filter (\<lambda>(c, v). 0 \<le> c \<and> nat c \<in> set kept) row)"

definition column_index :: "index_rule \<Rightarrow> bool list \<Rightarrow> 'a spmatrix \<Rightarrow> error + 'a spmatrix" where
  "column_index rule flags M =
     (if (case rule of
            LengthMustMatch \<Rightarrow> length flags \<noteq> n_cols M
          | IndicesInRange \<Rightarrow> list_ex (\<lambda>j. n_cols M \<le> j) (nonzero flags))
      then Inl IndexError
      else Inr \<lparr>n_cols = length (nonzero flags),
                row_entries = map (keep_columns (nonzero flags)) (row_entries M)\<rparr>)"

subsection \<open>The function\<close>

record ('a, 'w, 'v) func_result =
  A_sliced :: "'a spmatrix"
  weights_diag :: "'w list"
  x_init :: "'v list"
  reg_diag :: "'v list"
  tiles_used_all :: "bool list"

text \<open>
  \<open>tile_ids[tiles_used]\<close> (lines 545 and 548): boolean indexing needs an index of the
  array's length.
\<close>

definition used_ids :: "'x list \<Rightarrow> bool list \<Rightarrow> error + 'x list" where
  "used_ids tile_ids used_mask =
     (if length used_mask = length tile_ids then Inr (compress used_mask tile_ids)
      else Inl IndexError)"

text \<open>
  Lines 528-565 after the worker pool has returned \<open>results\<close>.  \<open>hdf5\<close> stands for
  \<open>output_mode == 'hdf5'\<close>; that branch calls \<open>self.write_chunks_to_files\<close>, which the
  class does not define.  In the other branch the merged arrays become the matrix \<open>A\<close>
  (line 550), which is then sliced by \<open>slice_ind\<close> (line 562).  The keys \<open>A\<close>,
  \<open>weights\<close>, \<open>x\<close>, \<open>reg\<close> and \<open>tiles_used\<close> of the result are the fields
  \<open>A_sliced\<close>, \<open>weights_diag\<close> (the data of the diagonal matrix \<open>outw\<close>), \<open>x_init\<close>,
  \<open>reg_diag\<close> and \<open>tiles_used_all\<close>.
\<close>

definition create_CSR_A ::
  "index_rule \<Rightarrow> bool \<Rightarrow> ('x, 'v) tilespec list \<Rightarrow> ('a, 'w) chunk list \<Rightarrow>
   error + ('a, 'w, 'v) func_result" where
  "create_CSR_A rule hdf5 tilespecs results =
     (let tile_ids = map tileId tilespecs in
      case union_tiles_used results of Inl e \<Rightarrow> Inl e | Inr m \<Rightarrow>
      if hdf5 then Inl (AttributeError ''write_chunks_to_files'')
      else
      (case used_ids tile_ids m of Inl e \<Rightarrow> Inl e | Inr ids \<Rightarrow>
      (case np_concatenate (map to_solve_vec (filter (\<lambda>t. tileId t \<in> set ids) tilespecs)) of
         Inl e \<Rightarrow> Inl e | Inr x0 \<Rightarrow>
      (case np_concatenate (map regularization (filter (\<lambda>t. tileId t \<in> set ids) tilespecs)) of
         Inl e \<Rightarrow> Inl e | Inr rg \<Rightarrow>
      (case concatenate_results results of Inl e \<Rightarrow> Inl e | Inr (arrs, z) \<Rightarrow>
      (case csr_matrix (data arrs) (indices arrs) (indptr arrs) of
         Inl e \<Rightarrow> Inl e | Inr A_full \<Rightarrow>
      (case slice_ind m tilespecs of Inl e \<Rightarrow> Inl e | Inr s \<Rightarrow>
      (case column_index rule s A_full of Inl e \<Rightarrow> Inl e | Inr A_s \<Rightarrow>
         Inr \<lparr>A_sliced = A_s, weights_diag = weights arrs, x_init = x0, reg_diag = rg,
              tiles_used_all = m\<rparr>))))))))"


section \<open>The run (\<open>assemble_and_solve\<close>, lines 246-307)\<close>

text \<open>
  The steps of a run that reach outside the module, in the order they happen.
\<close>

datatype event = AssembleFromHdf5 | AssembleFromDb | MatStats | Solve | WriteStack

record run_args =
  ingest_from_file :: string
  assemble_from_file :: string
  profile_data_load :: bool
  output_mode :: string

text \<open>
  \<open>assemble_from_hdf5\<close> (lines 319-409) starts by calling \<open>get_tileids_and_tforms\<close>
  (line 322), a name that is neither defined nor imported in the module, so the call
  raises NameError before anything is read.
\<close>

definition assemble_from_hdf5 :: "error + 'A option" where
  "assemble_from_hdf5 = Inl (NameError ''get_tileids_and_tforms'')"

text \<open>
  \<open>assemble_from_db\<close> (lines 411-465).  \<open>db\<close> is the outcome of lines 414-428, which
  query the tile store and run \<open>create_CSR_A\<close>: an exception, or the matrix \<open>A\<close>
  (possibly \<open>None\<close>).  With \<open>output_mode == 'hdf5'\<close> line 457 then calls
  \<open>write_reg_and_tforms\<close>, another unbound name.
\<close>

definition assemble_from_db :: "(error + 'A option) \<Rightarrow> string \<Rightarrow> error + 'A option" where
  "assemble_from_db db mode =
     (case db of
        Inl e \<Rightarrow> Inl e
      | Inr A \<Rightarrow> if mode = ''hdf5'' then Inl (NameError ''write_reg_and_tforms'') else Inr A)"

text \<open>The assembly step of lines 264-275, with the events it causes.\<close>

definition assemble :: "run_args \<Rightarrow> (error + 'A option) \<Rightarrow> event list \<times> (error + 'A option)" where
  "assemble args db =
     (case (if assemble_from_file args \<noteq> []
            then ([AssembleFromHdf5], assemble_from_hdf5)
            else ([AssembleFromDb], assemble_from_db db (output_mode args))) of
        (tr, Inl e) \<Rightarrow> (tr, Inl e)
      | (tr, Inr A) \<Rightarrow> (if A \<noteq> None then tr @ [MatStats] else tr, Inr A))"

text \<open>
  \<open>solve_or_not\<close> (lines 568-611): no solve for \<open>output_mode == 'hdf5'\<close> (the results are
  \<open>None\<close>), otherwise \<open>utils.solve\<close>, whose outcome is the parameter \<open>solve\<close>.
\<close>

definition solve_or_not ::
  "string \<Rightarrow> (error + 'r) \<Rightarrow> event list \<times> (error + 'r option)" where
  "solve_or_not mode solve =
     (if mode = ''hdf5'' then ([], Inr None)
      else ([Solve], case solve of Inl e \<Rightarrow> Inl e | Inr r \<Rightarrow> Inr (Some r)))"

text \<open>
  \<open>assemble_and_solve\<close>.  In the \<open>ingest_from_file\<close> branch (lines 254-260) nothing is
  solved; if the assembly returned, line 295 or line 305 would subscript keys that the
  dictionary of \<open>assemble_from_hdf5\<close> does not have.  In the other branch the statement
  of lines 277-279, \<open>raise EMalignerException("exiting after timing profile")\<close>, leaves
  the function when \<open>profile_data_load\<close> is set; the name \<open>EMalignerException\<close> is not
  bound in the module, so the exception that propagates from this statement is the
  NameError of that lookup.  After a solve, line 290 assigns into \<open>results\<close> (a
  TypeError when it is \<open>None\<close>), and with \<open>output_mode == 'stack'\<close> the tile specs are
  written out; \<open>write\<close> is the outcome of lines 294-302.
\<close>

definition assemble_and_solve ::
  "run_args \<Rightarrow> (error + 'A option) \<Rightarrow> (error + 'r) \<Rightarrow> (error + unit) \<Rightarrow>
   event list \<times> (error + 'r option)" where
  "assemble_and_solve args db solve write =
     (if ingest_from_file args \<noteq> [] then
        (case (assemble_from_hdf5 :: error + 'A option) of
           Inl e \<Rightarrow> ([AssembleFromHdf5], Inl e)
         | Inr A \<Rightarrow>
             ([AssembleFromHdf5],
              Inl (KeyError (if output_mode args = ''stack'' then ''resolved'' else ''x''))))
      else
        (case assemble args db of
           (tr, Inl e) \<Rightarrow> (tr, Inl e)
         | (tr, Inr A) \<Rightarrow>
             if profile_data_load args then (tr, Inl (NameError ''EMalignerException''))
             else
               (case solve_or_not (output_mode args) solve of
                  (tr', Inl e) \<Rightarrow> (tr @ tr', Inl e)
                | (tr', Inr results) \<Rightarrow>
                    if A \<noteq> None \<and> results = None then (tr @ tr', Inl TypeError)
                    else if output_mode args = ''stack'' then
                      (case write of
                         Inl e \<Rightarrow> (tr @ tr' @ [WriteStack], Inl e)
                       | Inr u \<Rightarrow> (tr @ tr' @ [WriteStack], Inr results))
                    else (tr @ tr', Inr results))))"

text \<open>Division of a real weight by an integer, the reading of \<open>fdiv\<close> used in examples.\<close>

definition real_div :: "real \<Rightarrow> int \<Rightarrow> real" where
  "real_div w n = w / real_of_int n"

section \<open>Properties of the pair weight factor\<close>

lemma list_index_Inl: "x \<notin> set xs \<Longrightarrow> list_index xs x = Inl ValueError"
  by (induction xs) auto

lemma list_index_Inr:
  "x \<in> set xs \<Longrightarrow>
   \<exists>i. list_index xs x = Inr i \<and> i < length xs \<and> xs ! i = x \<and> (\<forall>j<i. xs ! j \<noteq> x)"
proof (induction xs)
  case Nil
  then show ?case by simp
next
  case (Cons y ys)
  show ?case
  proof (cases "y = x")
    case True
    then show ?thesis by simp
  next
    case False
    with Cons.prems have "x \<in> set ys" by simp
    from Cons.IH [OF this] obtain i where
      i: "list_index ys x = Inr i" "i < length ys" "ys ! i = x" "\<forall>j<i. ys ! j \<noteq> x"
      by blast
    have "\<forall>j<Suc i. (y # ys) ! j \<noteq> x"
    proof (intro allI impI)
      fix j assume "j < Suc i"
      then show "(y # ys) ! j \<noteq> x"
        using False i(4) by (cases j) auto
    qed
    with False i show ?thesis by simp
  qed
qed

text \<open>
  C3 (as stated): with the depth table \<open>[0:1.0, 1:0.5]\<close>, montage weight 2.0, cross weight
  1.0 and inverse-distance weighting off, a same-section pair is said to get weight
  \<open>1.0 \<times> 2.0 = 2.0\<close>.  The code returns the table entry alone: the same-section pair
  \<open>z1 = z2 = 0\<close> gets 1.0, not 2.0.
\<close>

theorem tilepair_weight_same_section_counterexample:
  "tilepair_weight real_div 0 0
     \<lparr>depth = [0, 1], explicit_weight_by_depth = Some [1, 1/2],
      montage_pt_weight = 2, cross_pt_weight = 1, inverse_dz = False,
      npts_min = 5, npts_max = 200, choose_random = False\<rparr> \<noteq> Inr 2"
  by (simp add: tilepair_weight_def subscript_def)

text \<open>
  C3 (amended): with the depth table \<open>[0:1.0, 1:0.5]\<close>, montage weight 2.0, cross weight
  1.0 and inverse-distance weighting off, \<open>tilepair_weight\<close> returns the table value 1.0
  for every same-section pair (the montage weight is not applied) and 0.5 for every
  depth-1 cross pair, whatever the remaining settings are.
\<close>

theorem tilepair_weight_explicit_table_example:
  "tilepair_weight fdiv z z
     \<lparr>depth = [0, 1], explicit_weight_by_depth = Some [1, 1/2],
      montage_pt_weight = 2, cross_pt_weight = 1, inverse_dz = False,
      npts_min = lo, npts_max = hi, choose_random = rnd\<rparr> = Inr (1::real)
   \<and> tilepair_weight fdiv z (z + 1)
     \<lparr>depth = [0, 1], explicit_weight_by_depth = Some [1, 1/2],
      montage_pt_weight = 2, cross_pt_weight = 1, inverse_dz = False,
      npts_min = lo, npts_max = hi, choose_random = rnd\<rparr> = Inr (1/2 :: real)
   \<and> tilepair_weight fdiv (z + 1) z
     \<lparr>depth = [0, 1], explicit_weight_by_depth = Some [1, 1/2],
      montage_pt_weight = 2, cross_pt_weight = 1, inverse_dz = False,
      npts_min = lo, npts_max = hi, choose_random = rnd\<rparr> = Inr (1/2 :: real)"
  by (simp add: tilepair_weight_def subscript_def)

text \<open>
  C4: when no explicit weight-by-depth table is configured, \<open>tilepair_weight\<close> returns, for
  every pair of section values, the montage weight when \<open>z1 = z2\<close>, and otherwise the cross
  weight, divided by \<open>\<bar>z2 - z1\<bar> + 1\<close> exactly when inverse-distance weighting is enabled.
\<close>

theorem tilepair_weight_no_table:
  "tilepair_weight fdiv z1 z2 (ma\<lparr>explicit_weight_by_depth := None\<rparr>) =
     Inr (if z1 = z2 then montage_pt_weight ma
          else if inverse_dz ma then fdiv (cross_pt_weight ma) (\<bar>z2 - z1\<bar> + 1)
          else cross_pt_weight ma)"
  by (simp add: tilepair_weight_def)

text \<open>
  C10: when an explicit weight-by-depth table is configured, the weight is the table entry
  at the position of \<open>\<bar>z1 - z2\<bar>\<close> in the configured depth list (its first occurrence), not
  the entry at \<open>\<bar>z1 - z2\<bar>\<close> itself, and for every pair whose absolute section distance
  does not occur in the depth list the call raises ValueError (the failure of
  \<open>list.index\<close>) instead of returning a weight.
\<close>

theorem tilepair_weight_table_lookup:
  "tilepair_weight fdiv z1 z2 (ma\<lparr>explicit_weight_by_depth := Some tbl\<rparr>) =
     (if \<bar>z1 - z2\<bar> \<in> set (depth ma)
      then subscript tbl (LEAST i. depth ma ! i = \<bar>z1 - z2\<bar>)
      else Inl ValueError)"
proof (cases "\<bar>z1 - z2\<bar> \<in> set (depth ma)")
  case True
  from list_index_Inr [OF True] obtain i where
    i: "list_index (depth ma) \<bar>z1 - z2\<bar> = Inr i" "depth ma ! i = \<bar>z1 - z2\<bar>"
       "\<forall>j<i. depth ma ! j \<noteq> \<bar>z1 - z2\<bar>"
    by blast
  have "(LEAST i. depth ma ! i = \<bar>z1 - z2\<bar>) = i"
    using i(2,3) by (intro Least_equality) (auto simp: not_less [symmetric])
  with True i(1) show ?thesis by (simp add: tilepair_weight_def)
next
  case False
  then show ?thesis by (simp add: tilepair_weight_def list_index_Inl)
qed

section \<open>Properties of the merge\<close>

subsection \<open>The start index and the accumulation loop\<close>

lemma find_start_spec:
  "i < length chunks \<Longrightarrow>
   \<exists>k. find_start chunks i = Inr k \<and> i \<le> k \<and> k < length chunks \<and>
       (\<forall>j. i \<le> j \<and> j < k \<longrightarrow> arrays (chunks ! j) = None) \<and>
       (arrays (chunks ! k) \<noteq> None \<or> k = length chunks - 1)"
proof (induction chunks i rule: find_start.induct)
  case (1 chunks i)
  show ?case
  proof (cases "arrays (chunks ! i) = None \<and> i \<noteq> length chunks - 1")
    case False
    with "1.prems" show ?thesis
      by (subst find_start.simps) auto
  next
    case True
    with "1.prems" have lt: "i + 1 < length chunks" by arith
    from "1.IH" [OF _ _ _ lt] True "1.prems" obtain k where
      k: "find_start chunks (i + 1) = Inr k" "i + 1 \<le> k" "k < length chunks"
         "\<forall>j. i + 1 \<le> j \<and> j < k \<longrightarrow> arrays (chunks ! j) = None"
         "arrays (chunks ! k) \<noteq> None \<or> k = length chunks - 1"
      by auto
    have "\<forall>j. i \<le> j \<and> j < k \<longrightarrow> arrays (chunks ! j) = None"
    proof (intro allI impI)
      fix j assume j: "i \<le> j \<and> j < k"
      show "arrays (chunks ! j) = None"
      proof (cases "j = i")
        case True
        then show ?thesis using \<open>arrays (chunks ! i) = None \<and> _\<close> by simp
      next
        case False
        with j k(4) show ?thesis by simp
      qed
    qed
    with k True "1.prems" show ?thesis
      by (subst find_start.simps) auto
  qed
qed

lemma find_start_Nil: "find_start [] i = Inl IndexError"
  by (subst find_start.simps) simp

lemma map_filter_all_None:
  "\<forall>c\<in>set cs. f c = None \<Longrightarrow> List.map_filter f cs = []"
  by (induction cs) (auto simp: List.map_filter_simps)

lemma map_filter_append:
  "List.map_filter f (xs @ ys) = List.map_filter f xs @ List.map_filter f ys"
  by (simp add: List.map_filter_def)

lemma map_filter_split_at:
  assumes "i < length chunks" and "\<forall>j<i. f (chunks ! j) = None"
  shows "List.map_filter f chunks =
         List.map_filter f [chunks ! i] @ List.map_filter f (drop (i + 1) chunks)"
proof -
  have "chunks = take i chunks @ [chunks ! i] @ drop (i + 1) chunks"
    using assms(1) by (simp add: Cons_nth_drop_Suc)
  then have "List.map_filter f chunks =
      List.map_filter f (take i chunks) @ List.map_filter f [chunks ! i]
        @ List.map_filter f (drop (i + 1) chunks)"
    by (metis map_filter_append)
  moreover have "List.map_filter f (take i chunks) = []"
    using assms by (intro map_filter_all_None) (auto simp: in_set_conv_nth)
  ultimately show ?thesis by simp
qed

lemma merge_spec_data: "data (merge_spec acc cs) = data acc @ concat (map data cs)"
  by (induction cs arbitrary: acc) auto

lemma merge_spec_indices:
  "indices (merge_spec acc cs) = indices acc @ concat (map indices cs)"
  by (induction cs arbitrary: acc) auto

lemma merge_spec_weights:
  "weights (merge_spec acc cs) = weights acc @ concat (map weights cs)"
  by (induction cs arbitrary: acc) auto

lemma merge_loop_spec:
  "arrays c0 = Some a0 \<Longrightarrow> indptr a0 \<noteq> [] \<Longrightarrow>
   merge_loop c0 cs =
     Inr (c0\<lparr>arrays := Some (merge_spec a0 (List.map_filter arrays cs)),
             zlist := zlist c0 @ concat (map zlist (filter (\<lambda>c. arrays c \<noteq> None) cs))\<rparr>)"
proof (induction cs arbitrary: c0 a0)
  case Nil
  then show ?case by (simp add: List.map_filter_simps)
next
  case (Cons c cs)
  show ?case
  proof (cases "arrays c")
    case None
    with Cons show ?thesis
      by (simp add: merge_step_def List.map_filter_simps)
  next
    case (Some a)
    let ?a1 = "\<lparr>data = data a0 @ data a, indices = indices a0 @ indices a,
                 indptr = indptr a0 @ map (\<lambda>p. p + last (indptr a0)) (tl (indptr a)),
                 weights = weights a0 @ weights a\<rparr>"
    let ?c1 = "c0\<lparr>arrays := Some ?a1, zlist := zlist c0 @ zlist c\<rparr>"
    have step: "merge_step c0 c = Inr ?c1"
      using Some Cons.prems by (simp add: merge_step_def last_elem_def)
    have "merge_loop ?c1 cs =
       Inr (?c1\<lparr>arrays := Some (merge_spec ?a1 (List.map_filter arrays cs)),
               zlist := zlist ?c1 @ concat (map zlist (filter (\<lambda>c. arrays c \<noteq> None) cs))\<rparr>)"
      using Cons.prems by (intro Cons.IH) auto
    with step Some show ?thesis
      by (simp add: List.map_filter_simps)
  qed
qed


lemma last_rebased:
  assumes "acc \<noteq> []" "p \<noteq> []" "hd p = (0::int)"
  shows "last (acc @ map (\<lambda>x. x + last acc) (tl p)) = last acc + last p"
proof (cases "tl p = []")
  case True
  with assms(2,3) have "p = [0]" by (cases p) auto
  with assms(1) show ?thesis by simp
next
  case False
  then have "last (tl p) = last p" by (simp add: last_tl)
  with False show ?thesis by (simp add: last_map)
qed

lemma merge_spec_indptr:
  assumes "indptr acc \<noteq> []"
    and "\<forall>c\<in>set cs. indptr c \<noteq> [] \<and> hd (indptr c) = 0"
    and "cum = pre @ last (indptr acc) #
                 cumsum_from (last (indptr acc)) (map (\<lambda>a. last (indptr a)) cs)"
  shows "indptr (merge_spec acc cs) =
     indptr acc @
     concat (map (\<lambda>(i, j). if i = 0 then j else map (\<lambda>p. p + cum ! (i - 1)) (tl j))
              (enumerate (Suc (length pre)) (map indptr cs)))"
  using assms
proof (induction cs arbitrary: acc pre)
  case Nil
  then show ?case by simp
next
  case (Cons c cs)
  define L where "L = last (indptr acc)"
  define P where "P = indptr acc @ map (\<lambda>p. p + L) (tl (indptr c))"
  define acc' where "acc' = \<lparr>data = data acc @ data c, indices = indices acc @ indices c,
                indptr = P, weights = weights acc @ weights c\<rparr>"
  have c: "indptr c \<noteq> []" "hd (indptr c) = 0" using Cons.prems(2) by auto
  have P: "indptr acc' = P" by (simp add: acc'_def)
  have L': "last P = L + last (indptr c)"
    unfolding P_def L_def by (rule last_rebased [OF Cons.prems(1) c])
  have ne: "indptr acc' \<noteq> []" using Cons.prems(1) by (simp add: acc'_def P_def)
  have rest: "\<forall>c\<in>set cs. indptr c \<noteq> [] \<and> hd (indptr c) = 0"
    using Cons.prems(2) by simp
  have cum: "cum = (pre @ [L]) @ last (indptr acc') #
               cumsum_from (last (indptr acc')) (map (\<lambda>a. last (indptr a)) cs)"
    using Cons.prems(3) by (simp add: P L' L_def)
  have nth: "cum ! length pre = L"
    using Cons.prems(3) by (simp add: L_def nth_append)
  have step: "merge_spec acc (c # cs) = merge_spec acc' cs"
    by (simp add: acc'_def P_def L_def)
  have "indptr (merge_spec acc' cs) = P @
     concat (map (\<lambda>(i, j). if i = 0 then j else map (\<lambda>p. p + cum ! (i - 1)) (tl j))
              (enumerate (Suc (Suc (length pre))) (map indptr cs)))"
    using Cons.IH [OF ne rest cum] by (simp add: P)
  then show ?case
    unfolding step by (simp add: nth P_def L_def)
qed

lemma last_elems_nonempty:
  "\<forall>p\<in>set ps. p \<noteq> [] \<Longrightarrow> last_elems ps = Inr (map last ps)"
  by (induction ps) (auto simp: last_elem_def)

lemma rebase_indptr_spec:
  assumes "indptr a0 \<noteq> []"
    and "\<forall>c\<in>set as. indptr c \<noteq> [] \<and> hd (indptr c) = 0"
  shows "concat (rebase_indptr (cumsum_from 0 (map last (map indptr (a0 # as))))
                   (map indptr (a0 # as)))
         = indptr (merge_spec a0 as)"
proof -
  define cum where "cum = cumsum_from 0 (map last (map indptr (a0 # as)))"
  have "cum = [] @ last (indptr a0) #
                 cumsum_from (last (indptr a0)) (map (\<lambda>a. last (indptr a)) as)"
    by (simp add: cum_def comp_def)
  from merge_spec_indptr [OF assms this]
  show ?thesis
    unfolding cum_def [symmetric] by (simp add: rebase_indptr_def)
qed

lemma merge_spec_indptr_nonempty:
  "indptr acc \<noteq> [] \<Longrightarrow> indptr (merge_spec acc cs) \<noteq> []"
  by (induction cs arbitrary: acc) auto

lemma merge_spec_indptr_length:
  "length (indptr (merge_spec acc cs)) =
     length (indptr acc) + (\<Sum>c\<leftarrow>cs. length (indptr c) - 1)"
  by (induction cs arbitrary: acc) auto

lemma sorted_le_last: "sorted xs \<Longrightarrow> x \<in> set xs \<Longrightarrow> x \<le> last (xs :: int list)"
  by (induction xs) auto

lemma sorted_rebased:
  assumes "sorted acc" "acc \<noteq> []" "sorted p" "p \<noteq> []" "hd p = (0::int)"
  shows "sorted (acc @ map (\<lambda>x. x + last acc) (tl p))"
proof -
  have tl_ge: "\<forall>q\<in>set (tl p). 0 \<le> q"
    using assms(3,4,5) by (cases p) auto
  have acc_le: "\<forall>x\<in>set acc. x \<le> last acc"
    using assms(1) sorted_le_last by blast
  have "sorted (tl p)" using assms(3) by (cases p) auto
  then have "sorted (map (\<lambda>x. x + last acc) (tl p))"
    by (simp add: sorted_wrt_iff_nth_less)
  moreover have "\<forall>x\<in>set acc. \<forall>y\<in>set (map (\<lambda>x. x + last acc) (tl p)). x \<le> y"
  proof (intro ballI)
    fix x y assume x: "x \<in> set acc" and y: "y \<in> set (map (\<lambda>x. x + last acc) (tl p))"
    from y obtain q where q: "q \<in> set (tl p)" "y = q + last acc" by auto
    with tl_ge have "last acc \<le> y" by auto
    with acc_le x show "x \<le> y" by fastforce
  qed
  ultimately show ?thesis
    using assms(1) by (simp add: sorted_append)
qed

lemma merge_spec_sorted:
  assumes "sorted (indptr acc)" "indptr acc \<noteq> []"
    and "\<forall>c\<in>set cs. indptr c \<noteq> [] \<and> hd (indptr c) = 0 \<and> sorted (indptr c)"
  shows "sorted (indptr (merge_spec acc cs))"
  using assms
proof (induction cs arbitrary: acc)
  case Nil
  then show ?case by simp
next
  case (Cons c cs)
  define acc' where "acc' = \<lparr>data = data acc @ data c, indices = indices acc @ indices c,
                indptr = indptr acc @ map (\<lambda>p. p + last (indptr acc)) (tl (indptr c)),
                weights = weights acc @ weights c\<rparr>"
  have "sorted (indptr acc @ map (\<lambda>x. x + last (indptr acc)) (tl (indptr c)))"
    using Cons.prems by (intro sorted_rebased) auto
  then have s: "sorted (indptr acc')" by (simp add: acc'_def)
  have ne: "indptr acc' \<noteq> []" using Cons.prems(2) by (simp add: acc'_def)
  have "sorted (indptr (merge_spec acc' cs))"
    using Cons.prems(3) by (intro Cons.IH [OF s ne]) simp
  then show ?case by (simp add: acc'_def)
qed

lemma merge_spec_rows:
  assumes "length (indptr acc) = length (weights acc) + 1"
    and "\<forall>c\<in>set cs. length (indptr c) = length (weights c) + 1"
  shows "length (indptr (merge_spec acc cs)) = length (weights (merge_spec acc cs)) + 1"
  using assms by (induction cs arbitrary: acc) auto


lemma map_filter_eq_Nil_iff:
  "List.map_filter f xs = [] \<longleftrightarrow> (\<forall>x\<in>set xs. f x = None)"
  by (induction xs) (auto simp: List.map_filter_simps split: option.splits)

lemma filter_nonempty_of_map_filter:
  "List.map_filter f xs \<noteq> [] \<Longrightarrow> filter (\<lambda>c. f c \<noteq> None) xs \<noteq> []"
  by (auto simp: List.map_filter_def)

lemma first_nonempty_split:
  assumes "List.map_filter arrays chunks = a0 # as"
  shows "\<exists>k. find_start chunks 0 = Inr k \<and> k < length chunks \<and>
             arrays (chunks ! k) = Some a0 \<and>
             List.map_filter arrays (drop (k + 1) chunks) = as \<and>
             (\<forall>j<k. arrays (chunks ! j) = None)"
proof -
  from assms have ne: "chunks \<noteq> []" by (auto simp: List.map_filter_simps)
  then have "0 < length chunks" by simp
  from find_start_spec [OF this] obtain k where
    k: "find_start chunks 0 = Inr k" "k < length chunks"
       "\<forall>j<k. arrays (chunks ! j) = None"
       "arrays (chunks ! k) \<noteq> None \<or> k = length chunks - 1"
    by auto
  have split: "List.map_filter arrays chunks =
      List.map_filter arrays [chunks ! k] @ List.map_filter arrays (drop (k + 1) chunks)"
    using k(2,3) by (rule map_filter_split_at)
  have "arrays (chunks ! k) \<noteq> None"
  proof
    assume none: "arrays (chunks ! k) = None"
    with k(4) have "k = length chunks - 1" by simp
    with k(2) have "drop (k + 1) chunks = []" by simp
    with split none have "List.map_filter arrays chunks = []"
      by (simp add: List.map_filter_simps)
    with assms show False by simp
  qed
  then obtain a where a: "arrays (chunks ! k) = Some a" by auto
  with split assms have "a = a0" "List.map_filter arrays (drop (k + 1) chunks) = as"
    by (simp_all add: List.map_filter_simps)
  with k a show ?thesis by auto
qed

lemma concatenate_chunks_spec:
  assumes "List.map_filter arrays chunks = a0 # as" and "indptr a0 \<noteq> []"
  shows "\<exists>chunks' c0. concatenate_chunks chunks = Inr (chunks', c0) \<and>
                      arrays c0 = Some (merge_spec a0 as)"
proof -
  from first_nonempty_split [OF assms(1)] obtain k where
    k: "find_start chunks 0 = Inr k" "arrays (chunks ! k) = Some a0"
       "List.map_filter arrays (drop (k + 1) chunks) = as"
    by blast
  from merge_loop_spec [OF k(2) assms(2), of "drop (k + 1) chunks"] k(1,3)
  show ?thesis by (simp add: concatenate_chunks_def)
qed

lemma concatenate_results_spec:
  assumes "List.map_filter arrays chunks = a0 # as"
    and "\<forall>a\<in>set (a0 # as). indptr a \<noteq> [] \<and> hd (indptr a) = 0"
  shows "\<exists>z. concatenate_results chunks = Inr (merge_spec a0 as, z)"
proof -
  have sel: "filter (\<lambda>c. arrays c \<noteq> None) chunks \<noteq> []"
    using assms(1) by (intro filter_nonempty_of_map_filter) simp
  have lasts: "last_elems (map indptr (a0 # as)) = Inr (map last (map indptr (a0 # as)))"
    using assms(2) by (intro last_elems_nonempty) auto
  have ptr: "concat (rebase_indptr (cumsum_from 0 (map last (map indptr (a0 # as))))
                   (map indptr (a0 # as))) = indptr (merge_spec a0 as)"
    using assms(2) by (intro rebase_indptr_spec) auto
  have rb: "rebase_indptr (cumsum_from 0 (map last (map indptr (a0 # as))))
                   (map indptr (a0 # as)) \<noteq> []"
    by (simp add: rebase_indptr_def)
  have eq: "\<lparr>data = concat (map data (a0 # as)), indices = concat (map indices (a0 # as)),
         indptr = indptr (merge_spec a0 as), weights = concat (map weights (a0 # as))\<rparr>
        = merge_spec a0 as"
    by (simp add: merge_spec_data merge_spec_indices merge_spec_weights)
  show ?thesis
    unfolding concatenate_results_def Let_def assms(1) lasts
    using sel rb ptr eq by (simp add: np_concatenate_def)
qed

text \<open>
  C2: for every ordered collection of chunks with at least one non-empty chunk (the
  non-empty chunks are \<open>a0 # as\<close>, in order), whose row-pointer arrays are zero-based
  (non-empty, first entry 0, as the arrays of every assembled chunk are), both merge
  operations, \<open>concatenate_chunks\<close> and
  \<open>concatenate_results\<close>, return the merge as the specification words it
  (\<open>merge_spec\<close>): the value, column-index and weight arrays of the non-empty chunks
  appended verbatim, and each subsequent row-pointer array appended without its leading
  zero and offset by the accumulator's current final row pointer.  If moreover every
  input row-pointer array is non-decreasing, the merged one is non-decreasing and its
  length is the merged row count (the sum of the chunks' row counts) plus one; when every
  chunk has one weight per row, that is the merged weight count plus one.
\<close>

theorem merge_appends_and_rebases:
  assumes "List.map_filter arrays chunks = a0 # as"
    and "\<forall>a\<in>set (a0 # as). indptr a \<noteq> [] \<and> hd (indptr a) = 0"
  shows "(\<exists>chunks' c0. concatenate_chunks chunks = Inr (chunks', c0) \<and>
                        arrays c0 = Some (merge_spec a0 as))
       \<and> (\<exists>z. concatenate_results chunks = Inr (merge_spec a0 as, z))
       \<and> data (merge_spec a0 as) = concat (map data (a0 # as))
       \<and> indices (merge_spec a0 as) = concat (map indices (a0 # as))
       \<and> weights (merge_spec a0 as) = concat (map weights (a0 # as))
       \<and> ((\<forall>a\<in>set (a0 # as). sorted (indptr a)) \<longrightarrow>
            sorted (indptr (merge_spec a0 as)) \<and>
            length (indptr (merge_spec a0 as)) = (\<Sum>a\<leftarrow>a0 # as. length (indptr a) - 1) + 1)
       \<and> ((\<forall>a\<in>set (a0 # as). length (indptr a) = length (weights a) + 1) \<longrightarrow>
            length (indptr (merge_spec a0 as)) = length (weights (merge_spec a0 as)) + 1)"
proof -
  have ne: "indptr a0 \<noteq> []" using assms(2) by simp
  have 1: "\<exists>chunks' c0. concatenate_chunks chunks = Inr (chunks', c0) \<and>
                        arrays c0 = Some (merge_spec a0 as)"
    using assms(1) ne by (rule concatenate_chunks_spec)
  have 2: "\<exists>z. concatenate_results chunks = Inr (merge_spec a0 as, z)"
    using assms by (rule concatenate_results_spec)
  have 3: "sorted (indptr (merge_spec a0 as))" if "\<forall>a\<in>set (a0 # as). sorted (indptr a)"
    using that assms(2) by (intro merge_spec_sorted) auto
  have 4: "length (indptr (merge_spec a0 as)) = (\<Sum>a\<leftarrow>a0 # as. length (indptr a) - 1) + 1"
    using ne by (simp add: merge_spec_indptr_length)
  have 5: "length (indptr (merge_spec a0 as)) = length (weights (merge_spec a0 as)) + 1"
    if "\<forall>a\<in>set (a0 # as). length (indptr a) = length (weights a) + 1"
    using that by (intro merge_spec_rows) auto
  from 1 2 3 4 5 show ?thesis
    by (simp only: merge_spec_data merge_spec_indices merge_spec_weights
        list.map concat.simps) blast
qed

text \<open>An instance: an empty chunk followed by two non-empty ones.\<close>

theorem merge_appends_and_rebases_witness:
  "List.map_filter arrays
     [\<lparr>tiles_used = [False, False, False], arrays = None, nchunks = 0, zlist = []\<rparr>,
      \<lparr>tiles_used = [True, True, False],
       arrays = Some \<lparr>data = [1, 2 :: real], indices = [0, 1], indptr = [0, 2],
                      weights = [1 :: real]\<rparr>,
       nchunks = 0, zlist = [0, 0]\<rparr>,
      \<lparr>tiles_used = [False, True, True],
       arrays = Some \<lparr>data = [3, 4, 5, 6], indices = [1, 2, 1, 2], indptr = [0, 2, 4],
                      weights = [1/2, 1/2]\<rparr>,
       nchunks = 0, zlist = [0, 1]\<rparr>]
   = [\<lparr>data = [1, 2], indices = [0, 1], indptr = [0, 2], weights = [1]\<rparr>,
      \<lparr>data = [3, 4, 5, 6], indices = [1, 2, 1, 2], indptr = [0, 2, 4],
       weights = [1/2, 1/2]\<rparr>]
   \<and> concatenate_results
     [\<lparr>tiles_used = [False, False, False], arrays = None, nchunks = 0, zlist = []\<rparr>,
      \<lparr>tiles_used = [True, True, False],
       arrays = Some \<lparr>data = [1, 2 :: real], indices = [0, 1], indptr = [0, 2],
                      weights = [1 :: real]\<rparr>,
       nchunks = 0, zlist = [0, 0]\<rparr>,
      \<lparr>tiles_used = [False, True, True],
       arrays = Some \<lparr>data = [3, 4, 5, 6], indices = [1, 2, 1, 2], indptr = [0, 2, 4],
                      weights = [1/2, 1/2]\<rparr>,
       nchunks = 0, zlist = [0, 1]\<rparr>]
   = Inr (\<lparr>data = [1, 2, 3, 4, 5, 6], indices = [0, 1, 1, 2, 1, 2],
           indptr = [0, 2, 4, 6], weights = [1, 1/2, 1/2]\<rparr>, [0, 0, 0, 1])
   \<and> merge_spec \<lparr>data = [1, 2 :: real], indices = [0, 1], indptr = [0, 2],
                  weights = [1 :: real]\<rparr>
        [\<lparr>data = [3, 4, 5, 6], indices = [1, 2, 1, 2], indptr = [0, 2, 4],
          weights = [1/2, 1/2]\<rparr>]
   = \<lparr>data = [1, 2, 3, 4, 5, 6], indices = [0, 1, 1, 2, 1, 2],
           indptr = [0, 2, 4, 6], weights = [1, 1/2, 1/2]\<rparr>"
  using merge_appends_and_rebases
    [of "[\<lparr>tiles_used = [False, False, False], arrays = None, nchunks = 0, zlist = []\<rparr>,
      \<lparr>tiles_used = [True, True, False],
       arrays = Some \<lparr>data = [1, 2 :: real], indices = [0, 1], indptr = [0, 2],
                      weights = [1 :: real]\<rparr>,
       nchunks = 0, zlist = [0, 0]\<rparr>,
      \<lparr>tiles_used = [False, True, True],
       arrays = Some \<lparr>data = [3, 4, 5, 6], indices = [1, 2, 1, 2], indptr = [0, 2, 4],
                      weights = [1/2, 1/2]\<rparr>,
       nchunks = 0, zlist = [0, 1]\<rparr>]"
     "\<lparr>data = [1, 2], indices = [0, 1], indptr = [0, 2], weights = [1]\<rparr>"
     "[\<lparr>data = [3, 4, 5, 6], indices = [1, 2, 1, 2], indptr = [0, 2, 4],
       weights = [1/2, 1/2]\<rparr>]"]
  by (simp add: List.map_filter_simps concatenate_results_def np_concatenate_def
      last_elem_def rebase_indptr_def)

subsection \<open>What the merge does to its inputs\<close>

lemma merge_loop_frame:
  "merge_loop c0 cs = Inr c \<Longrightarrow> tiles_used c = tiles_used c0 \<and> nchunks c = nchunks c0"
proof (induction cs arbitrary: c0)
  case Nil
  then show ?case by simp
next
  case (Cons x cs)
  from Cons.prems obtain c1 where
    c1: "merge_step c0 x = Inr c1" "merge_loop c1 cs = Inr c"
    by (auto split: sum.splits)
  from c1(1) have "tiles_used c1 = tiles_used c0 \<and> nchunks c1 = nchunks c0"
    by (auto simp: merge_step_def split: option.splits sum.splits)
  with Cons.IH [OF c1(2)] show ?case by simp
qed

lemma merge_loop_all_empty:
  "\<forall>c\<in>set cs. arrays c = None \<Longrightarrow> merge_loop c0 cs = Inr c0"
  by (induction cs) (auto simp: merge_step_def)

text \<open>
  C8 (as stated): the merge is said to leave every input chunk's fields as they were.
  \<open>concatenate_chunks\<close> accumulates into \<open>c0 = chunks[i]\<close>, the first non-empty chunk
  of the caller's list: after merging two non-empty chunks, element 0 of the list holds the
  merged data, indices, indptr, weights and zlist, not its own.
\<close>

theorem concatenate_chunks_mutates_counterexample:
  "concatenate_chunks
     [\<lparr>tiles_used = [True, True, False],
       arrays = Some \<lparr>data = [1, 2 :: real], indices = [0, 1], indptr = [0, 2],
                      weights = [1 :: real]\<rparr>,
       nchunks = 0, zlist = [0, 0]\<rparr>,
      \<lparr>tiles_used = [False, True, True],
       arrays = Some \<lparr>data = [3, 4, 5, 6], indices = [1, 2, 1, 2], indptr = [0, 2, 4],
                      weights = [1/2, 1/2]\<rparr>,
       nchunks = 0, zlist = [0, 1]\<rparr>]
   = Inr ([\<lparr>tiles_used = [True, True, False],
            arrays = Some \<lparr>data = [1, 2, 3, 4, 5, 6], indices = [0, 1, 1, 2, 1, 2],
                           indptr = [0, 2, 4, 6], weights = [1, 1/2, 1/2]\<rparr>,
            nchunks = 0, zlist = [0, 0, 0, 1]\<rparr>,
           \<lparr>tiles_used = [False, True, True],
            arrays = Some \<lparr>data = [3, 4, 5, 6], indices = [1, 2, 1, 2], indptr = [0, 2, 4],
                           weights = [1/2, 1/2]\<rparr>,
            nchunks = 0, zlist = [0, 1]\<rparr>],
          \<lparr>tiles_used = [True, True, False],
            arrays = Some \<lparr>data = [1, 2, 3, 4, 5, 6], indices = [0, 1, 1, 2, 1, 2],
                           indptr = [0, 2, 4, 6], weights = [1, 1/2, 1/2]\<rparr>,
            nchunks = 0, zlist = [0, 0, 0, 1]\<rparr>)
   \<and> \<lparr>tiles_used = [True, True, False],
            arrays = Some \<lparr>data = [1, 2, 3, 4, 5, 6 :: real], indices = [0, 1, 1, 2, 1, 2],
                           indptr = [0, 2, 4, 6], weights = [1, 1/2, 1/2 :: real]\<rparr>,
            nchunks = 0, zlist = [0, 0, 0, 1]\<rparr>
     \<noteq> \<lparr>tiles_used = [True, True, False],
       arrays = Some \<lparr>data = [1, 2 :: real], indices = [0, 1], indptr = [0, 2],
                      weights = [1 :: real]\<rparr>,
       nchunks = 0, zlist = [0, 0]\<rparr>"
  by (simp add: concatenate_chunks_def find_start.simps merge_step_def last_elem_def)

lemma merge_loop_result:
  assumes "merge_loop c0 cs = Inr c" and "arrays c0 = Some a0"
  shows "arrays c = Some (merge_spec a0 (List.map_filter arrays cs)) \<and>
         zlist c = zlist c0 @ concat (map zlist (filter (\<lambda>c. arrays c \<noteq> None) cs))"
  using assms
proof (induction cs arbitrary: c0 a0)
  case Nil
  then show ?case by (simp add: List.map_filter_simps)
next
  case (Cons x cs)
  from Cons.prems(1) obtain c1 where
    c1: "merge_step c0 x = Inr c1" "merge_loop c1 cs = Inr c"
    by (auto split: sum.splits)
  show ?case
  proof (cases "arrays x")
    case None
    with c1(1) have "c1 = c0" by (simp add: merge_step_def)
    with Cons.IH [OF c1(2)] Cons.prems(2) None show ?thesis
      by (simp add: List.map_filter_simps)
  next
    case (Some a)
    let ?a1 = "\<lparr>data = data a0 @ data a, indices = indices a0 @ indices a,
                 indptr = indptr a0 @ map (\<lambda>p. p + last (indptr a0)) (tl (indptr a)),
                 weights = weights a0 @ weights a\<rparr>"
    from c1(1) Some Cons.prems(2) have
      c1_eq: "c1 = c0\<lparr>arrays := Some ?a1, zlist := zlist c0 @ zlist x\<rparr>"
      by (auto simp: merge_step_def last_elem_def split: if_splits)
    then have a1: "arrays c1 = Some ?a1" and z1: "zlist c1 = zlist c0 @ zlist x"
      by simp_all
    from Cons.IH [OF c1(2) a1] z1 Some show ?thesis
      by (simp add: List.map_filter_simps)
  qed
qed

text \<open>
  C8 (amended): when \<open>concatenate_chunks\<close> completes, every input chunk except the
  accumulator holds the values it held before the merge.  The accumulator is the first
  chunk whose data is not \<open>None\<close> (the last chunk when all are empty) and is also the
  returned chunk: it keeps its used-tile mask and \<open>nchunks\<close>, while its data, indices,
  indptr and weights are replaced by the merged arrays (the arrays of all non-empty chunks
  in order, row pointers re-based) and its zlist by the concatenation of the zlists of the
  non-empty chunks; when no later chunk is non-empty, nothing changes at all.
\<close>

theorem concatenate_chunks_frame:
  assumes "concatenate_chunks chunks = Inr (chunks', c0)"
  shows "\<exists>i<length chunks.
           chunks' = chunks[i := c0] \<and>
           (\<forall>j<i. arrays (chunks ! j) = None) \<and>
           (arrays (chunks ! i) \<noteq> None \<or> i = length chunks - 1) \<and>
           (\<forall>j<length chunks. j \<noteq> i \<longrightarrow> chunks' ! j = chunks ! j) \<and>
           tiles_used c0 = tiles_used (chunks ! i) \<and>
           nchunks c0 = nchunks (chunks ! i) \<and>
           (arrays (chunks ! i) = None \<longrightarrow> c0 = chunks ! i) \<and>
           (\<forall>a0. arrays (chunks ! i) = Some a0 \<longrightarrow>
              (\<exists>m. arrays c0 = Some m \<and>
                 m = merge_spec a0 (List.map_filter arrays (drop (i + 1) chunks)) \<and>
                 data m = concat (map data (List.map_filter arrays chunks)) \<and>
                 indices m = concat (map indices (List.map_filter arrays chunks)) \<and>
                 weights m = concat (map weights (List.map_filter arrays chunks))) \<and>
              zlist c0 = concat (map zlist (filter (\<lambda>c. arrays c \<noteq> None) chunks))) \<and>
           ((\<forall>j<length chunks. i < j \<longrightarrow> arrays (chunks ! j) = None) \<longrightarrow> chunks' = chunks)"
proof (cases "chunks = []")
  case True
  with assms show ?thesis
    by (simp add: concatenate_chunks_def find_start_Nil)
next
  case False
  then have "0 < length chunks" by simp
  from find_start_spec [OF this] obtain i where
    i: "find_start chunks 0 = Inr i" "i < length chunks"
       "\<forall>j<i. arrays (chunks ! j) = None"
       "arrays (chunks ! i) \<noteq> None \<or> i = length chunks - 1"
    by auto
  from assms i(1) have loop: "merge_loop (chunks ! i) (drop (i + 1) chunks) = Inr c0"
    and upd: "chunks' = chunks[i := c0]"
    by (auto simp: concatenate_chunks_def split: sum.splits)
  from merge_loop_frame [OF loop]
  have fr: "tiles_used c0 = tiles_used (chunks ! i)" "nchunks c0 = nchunks (chunks ! i)"
    by simp_all
  have same: "chunks' = chunks" if "\<forall>j<length chunks. i < j \<longrightarrow> arrays (chunks ! j) = None"
  proof -
    have "\<forall>c\<in>set (drop (i + 1) chunks). arrays c = None"
      using that by (auto simp: in_set_conv_nth)
    from merge_loop_all_empty [OF this, of "chunks ! i"] loop have "c0 = chunks ! i" by simp
    with upd show ?thesis by simp
  qed
  have none: "c0 = chunks ! i" if n: "arrays (chunks ! i) = None"
  proof -
    from n i(4) have "i = length chunks - 1" by simp
    with i(2) have "drop (i + 1) chunks = []" by simp
    with loop show ?thesis by simp
  qed
  have split_f: "filter (\<lambda>c. arrays c \<noteq> None) chunks =
          filter (\<lambda>c. arrays c \<noteq> None) [chunks ! i] @
          filter (\<lambda>c. arrays c \<noteq> None) (drop (i + 1) chunks)"
  proof -
    have "chunks = take i chunks @ [chunks ! i] @ drop (i + 1) chunks"
      using i(2) by (simp add: Cons_nth_drop_Suc)
    then have "filter (\<lambda>c. arrays c \<noteq> None) chunks =
        filter (\<lambda>c. arrays c \<noteq> None) (take i chunks) @
        filter (\<lambda>c. arrays c \<noteq> None) [chunks ! i] @
        filter (\<lambda>c. arrays c \<noteq> None) (drop (i + 1) chunks)"
      by (metis filter_append)
    moreover have "filter (\<lambda>c. arrays c \<noteq> None) (take i chunks) = []"
      using i(2,3) by (auto simp: filter_empty_conv in_set_conv_nth)
    ultimately show ?thesis by simp
  qed
  have some: "(\<exists>m. arrays c0 = Some m \<and>
                 m = merge_spec a0 (List.map_filter arrays (drop (i + 1) chunks)) \<and>
                 data m = concat (map data (List.map_filter arrays chunks)) \<and>
                 indices m = concat (map indices (List.map_filter arrays chunks)) \<and>
                 weights m = concat (map weights (List.map_filter arrays chunks))) \<and>
              zlist c0 = concat (map zlist (filter (\<lambda>c. arrays c \<noteq> None) chunks))"
    if a0: "arrays (chunks ! i) = Some a0" for a0
  proof -
    let ?later = "List.map_filter arrays (drop (i + 1) chunks)"
    from merge_loop_result [OF loop a0] have
      m: "arrays c0 = Some (merge_spec a0 ?later)" and
      z: "zlist c0 = zlist (chunks ! i) @
            concat (map zlist (filter (\<lambda>c. arrays c \<noteq> None) (drop (i + 1) chunks)))"
      by simp_all
    have all: "List.map_filter arrays chunks = a0 # ?later"
      using map_filter_split_at [OF i(2), of arrays] i(3) a0
      by (simp add: List.map_filter_simps)
    have z': "zlist c0 = concat (map zlist (filter (\<lambda>c. arrays c \<noteq> None) chunks))"
      unfolding split_f using z a0 by simp
    from m z' show ?thesis
      by (simp add: all merge_spec_data merge_spec_indices merge_spec_weights)
  qed
  from i(2,3,4) upd fr same none some show ?thesis
    by (intro exI [of _ i]) auto
qed

text \<open>
  An instance: an empty chunk, then two non-empty chunks; the second chunk of the list
  becomes the merge of the second and third, the first and third are as before.
\<close>

theorem concatenate_chunks_frame_witness:
  "concatenate_chunks
     [\<lparr>tiles_used = [False, False, False], arrays = None, nchunks = 0, zlist = []\<rparr>,
      \<lparr>tiles_used = [True, True, False],
       arrays = Some \<lparr>data = [1, 2 :: real], indices = [0, 1], indptr = [0, 2],
                      weights = [1 :: real]\<rparr>,
       nchunks = 0, zlist = [0, 0]\<rparr>,
      \<lparr>tiles_used = [False, True, True],
       arrays = Some \<lparr>data = [3, 4, 5, 6], indices = [1, 2, 1, 2], indptr = [0, 2, 4],
                      weights = [1/2, 1/2]\<rparr>,
       nchunks = 0, zlist = [0, 1]\<rparr>]
   = Inr ([\<lparr>tiles_used = [False, False, False], arrays = None, nchunks = 0, zlist = []\<rparr>,
           \<lparr>tiles_used = [True, True, False],
            arrays = Some \<lparr>data = [1, 2, 3, 4, 5, 6], indices = [0, 1, 1, 2, 1, 2],
                           indptr = [0, 2, 4, 6], weights = [1, 1/2, 1/2]\<rparr>,
            nchunks = 0, zlist = [0, 0, 0, 1]\<rparr>,
           \<lparr>tiles_used = [False, True, True],
            arrays = Some \<lparr>data = [3, 4, 5, 6], indices = [1, 2, 1, 2], indptr = [0, 2, 4],
                           weights = [1/2, 1/2]\<rparr>,
            nchunks = 0, zlist = [0, 1]\<rparr>],
          \<lparr>tiles_used = [True, True, False],
           arrays = Some \<lparr>data = [1, 2, 3, 4, 5, 6], indices = [0, 1, 1, 2, 1, 2],
                          indptr = [0, 2, 4, 6], weights = [1, 1/2, 1/2]\<rparr>,
           nchunks = 0, zlist = [0, 0, 0, 1]\<rparr>)"
proof -
  have run: "concatenate_chunks
     [\<lparr>tiles_used = [False, False, False], arrays = None, nchunks = 0, zlist = []\<rparr>,
      \<lparr>tiles_used = [True, True, False],
       arrays = Some \<lparr>data = [1, 2 :: real], indices = [0, 1], indptr = [0, 2],
                      weights = [1 :: real]\<rparr>,
       nchunks = 0, zlist = [0, 0]\<rparr>,
      \<lparr>tiles_used = [False, True, True],
       arrays = Some \<lparr>data = [3, 4, 5, 6], indices = [1, 2, 1, 2], indptr = [0, 2, 4],
                      weights = [1/2, 1/2]\<rparr>,
       nchunks = 0, zlist = [0, 1]\<rparr>]
   = Inr ([\<lparr>tiles_used = [False, False, False], arrays = None, nchunks = 0, zlist = []\<rparr>,
           \<lparr>tiles_used = [True, True, False],
            arrays = Some \<lparr>data = [1, 2, 3, 4, 5, 6], indices = [0, 1, 1, 2, 1, 2],
                           indptr = [0, 2, 4, 6], weights = [1, 1/2, 1/2]\<rparr>,
            nchunks = 0, zlist = [0, 0, 0, 1]\<rparr>,
           \<lparr>tiles_used = [False, True, True],
            arrays = Some \<lparr>data = [3, 4, 5, 6], indices = [1, 2, 1, 2], indptr = [0, 2, 4],
                           weights = [1/2, 1/2]\<rparr>,
            nchunks = 0, zlist = [0, 1]\<rparr>],
          \<lparr>tiles_used = [True, True, False],
           arrays = Some \<lparr>data = [1, 2, 3, 4, 5, 6], indices = [0, 1, 1, 2, 1, 2],
                          indptr = [0, 2, 4, 6], weights = [1, 1/2, 1/2]\<rparr>,
           nchunks = 0, zlist = [0, 0, 0, 1]\<rparr>)"
    by (simp add: concatenate_chunks_def find_start.simps merge_step_def last_elem_def)
  show ?thesis
    using run concatenate_chunks_frame [OF run] by - assumption
qed

section \<open>Properties of the chunk assembly\<close>

subsection \<open>Empty groups\<close>

lemma empty_chunk_fields:
  "chunk_data (empty_chunk n) = None" "chunk_indices (empty_chunk n) = None"
  "chunk_indptr (empty_chunk n) = None" "chunk_weights (empty_chunk n) = None"
  "tiles_used (empty_chunk n) = replicate n False"
  by (simp_all add: empty_chunk_def chunk_data_def chunk_indices_def chunk_indptr_def
      chunk_weights_def)

text \<open>
  C7: for every tile-pair group whose match fetch returns zero matches, or whose matches
  are all discarded by the tile-set filter, \<open>calculate_processing_chunk\<close> returns
  normally, with a chunk whose \<open>data\<close>, \<open>indices\<close>, \<open>indptr\<close> and \<open>weights\<close> are
  \<open>None\<close> and whose used-tile mask has one entry per tile, all false.
\<close>

theorem empty_group_gives_empty_chunk:
  assumes "matches = [] \<or> surviving tile_ids matches = []"
  shows "\<exists>c. calculate_processing_chunk fdiv fmul tf matches z1 z2 ma tile_ids = Inr c \<and>
             chunk_data c = None \<and> chunk_indices c = None \<and>
             chunk_indptr c = None \<and> chunk_weights c = None \<and>
             length (tiles_used c) = length tile_ids \<and>
             True \<notin> set (tiles_used c)"
  using assms
  by (auto simp: calculate_processing_chunk_def empty_chunk_fields)

text \<open>An instance: one fetched match, neither of whose tiles is in the stack.\<close>

theorem empty_group_gives_empty_chunk_witness:
  "surviving [1, 2, 3 :: nat] [\<lparr>pId = 7, qId = 8\<rparr>] = []
   \<and> calculate_processing_chunk real_div (*)
        \<lparr>nnz_per_row = 3, rows_per_ptmatch = 1,
         CSR_from_tilepair = (\<lambda>k m p q lo hi r. None)\<rparr>
        [\<lparr>pId = 7, qId = 8\<rparr>] 4 5
        \<lparr>depth = [0, 1], explicit_weight_by_depth = None,
         montage_pt_weight = 1, cross_pt_weight = 1/2, inverse_dz = False,
         npts_min = 5, npts_max = 200, choose_random = False\<rparr>
        [1, 2, 3 :: nat]
      = (Inr \<lparr>tiles_used = [False, False, False], arrays = None, nchunks = 0, zlist = []\<rparr>
          :: error + (real, real) chunk)"
proof -
  have s: "surviving [1, 2, 3 :: nat] [\<lparr>pId = 7, qId = 8\<rparr>] = []"
    by (simp add: surviving_def instack_def in1d_def compress_def)
  then have "[\<lparr>pId = 7, qId = 8\<rparr>] = [] \<or> surviving [1, 2, 3 :: nat] [\<lparr>pId = 7, qId = 8\<rparr>] = []"
    by simp
  from empty_group_gives_empty_chunk [OF this] s
  show ?thesis
    by (simp add: calculate_processing_chunk_def empty_chunk_def numeral_3_eq_3)
qed

subsection \<open>Filtering and resolving tile identifiers\<close>

lemma compress_map_pred:
  "compress (map P xs) xs = filter P xs"
  by (induction xs) (auto simp: compress_def)

lemma compress_map_pred_map:
  "compress (map P xs) (map f xs) = map f (filter P xs)"
  by (induction xs) (auto simp: compress_def)

lemma instack_eq:
  "instack tile_ids matches =
     map (\<lambda>m. pId m \<in> set tile_ids \<and> qId m \<in> set tile_ids) matches"
  by (induction matches) (auto simp: instack_def in1d_def)

lemma surviving_eq_filter:
  "surviving tile_ids matches =
     filter (\<lambda>m. pId m \<in> set tile_ids \<and> qId m \<in> set tile_ids) matches"
  by (simp add: surviving_def instack_eq compress_map_pred)


lemma bisect_left_spec:
  assumes "sorted (map (\<lambda>i. a ! i) S)" "lo \<le> hi" "hi \<le> length S"
    and "\<forall>i<lo. a ! (S ! i) < v"
    and "\<forall>i. hi \<le> i \<and> i < length S \<longrightarrow> v \<le> a ! (S ! i)"
  shows "lo \<le> bisect_left a S v lo hi \<and> bisect_left a S v lo hi \<le> hi \<and>
         (\<forall>i<bisect_left a S v lo hi. a ! (S ! i) < v) \<and>
         (\<forall>i. bisect_left a S v lo hi \<le> i \<and> i < length S \<longrightarrow> v \<le> a ! (S ! i))"
  using assms
proof (induction a S v lo hi rule: bisect_left.induct)
  case (1 a S v lo hi)
  have mono: "a ! (S ! i) \<le> a ! (S ! j)" if "i \<le> j" "j < length S" for i j
    using sorted_nth_mono [OF "1.prems"(1), of i j] that by simp
  show ?case
  proof (cases "lo < hi")
    case False
    with "1.prems" show ?thesis
      by (subst (1 2 3 4) bisect_left.simps) auto
  next
    case True
    define mid where "mid = lo + (hi - lo) div 2"
    have mid: "lo \<le> mid" "mid < hi" using True by (auto simp: mid_def)
    show ?thesis
    proof (cases "a ! (S ! mid) < v")
      case lt: True
      have below: "\<forall>i<mid + 1. a ! (S ! i) < v"
      proof (intro allI impI)
        fix i assume "i < mid + 1"
        then have "a ! (S ! i) \<le> a ! (S ! mid)"
          using mid "1.prems"(3) by (intro mono) auto
        with lt show "a ! (S ! i) < v" by simp
      qed
      have eq: "bisect_left a S v lo hi = bisect_left a S v (mid + 1) hi"
        using True lt by (subst bisect_left.simps) (simp add: mid_def Let_def)
      have "mid + 1 \<le> bisect_left a S v (mid + 1) hi \<and>
            bisect_left a S v (mid + 1) hi \<le> hi \<and>
            (\<forall>i<bisect_left a S v (mid + 1) hi. a ! (S ! i) < v) \<and>
            (\<forall>i. bisect_left a S v (mid + 1) hi \<le> i \<and> i < length S \<longrightarrow> v \<le> a ! (S ! i))"
        using "1.IH"(1) [OF True mid_def lt "1.prems"(1) _ "1.prems"(3) below "1.prems"(5)] mid
        by simp
      with mid show ?thesis unfolding eq by auto
    next
      case ge: False
      have above: "\<forall>i. mid \<le> i \<and> i < length S \<longrightarrow> v \<le> a ! (S ! i)"
      proof (intro allI impI)
        fix i assume i: "mid \<le> i \<and> i < length S"
        then have "a ! (S ! mid) \<le> a ! (S ! i)" by (intro mono) auto
        with ge show "v \<le> a ! (S ! i)" by simp
      qed
      have eq: "bisect_left a S v lo hi = bisect_left a S v lo mid"
        using True ge by (subst bisect_left.simps) (simp add: mid_def Let_def)
      have "lo \<le> bisect_left a S v lo mid \<and>
            bisect_left a S v lo mid \<le> mid \<and>
            (\<forall>i<bisect_left a S v lo mid. a ! (S ! i) < v) \<and>
            (\<forall>i. bisect_left a S v lo mid \<le> i \<and> i < length S \<longrightarrow> v \<le> a ! (S ! i))"
        using "1.IH"(2) [OF True mid_def ge "1.prems"(1) mid(1) _ "1.prems"(4) above]
          mid "1.prems"(3) by simp
      with mid show ?thesis unfolding eq by auto
    qed
  qed
qed

lemma argsort_props:
  "length (argsort a) = length a"
  "set (argsort a) = {0..<length a}"
  "sorted (map (\<lambda>i. a ! i) (argsort a))"
  by (simp_all add: argsort_def)

lemma searchsorted_finds:
  assumes "v \<in> set a"
  shows "searchsorted a v (argsort a) < length a \<and>
         argsort a ! searchsorted a v (argsort a) < length a \<and>
         a ! (argsort a ! searchsorted a v (argsort a)) = v"
proof -
  let ?S = "argsort a"
  let ?r = "searchsorted a v ?S"
  have spec: "?r \<le> length ?S \<and> (\<forall>i<?r. a ! (?S ! i) < v) \<and>
              (\<forall>i. ?r \<le> i \<and> i < length ?S \<longrightarrow> v \<le> a ! (?S ! i))"
  proof -
    have "\<forall>i. length ?S \<le> i \<and> i < length ?S \<longrightarrow> v \<le> a ! (?S ! i)" by auto
    from bisect_left_spec [OF argsort_props(3) _ _ _ this, where lo = 0]
    show ?thesis by (simp add: searchsorted_def argsort_props)
  qed
  from assms obtain i where i: "i < length a" "a ! i = v"
    by (auto simp: in_set_conv_nth)
  then have "i \<in> set ?S" by (simp add: argsort_props)
  then obtain j where j: "j < length ?S" "?S ! j = i"
    by (auto simp: in_set_conv_nth)
  have "\<not> j < ?r" using spec i(2) j(2) by auto
  then have rj: "?r \<le> j" by simp
  with j(1) have r: "?r < length ?S" by simp
  have "a ! (?S ! ?r) \<le> a ! (?S ! j)"
    using sorted_nth_mono [OF argsort_props(3), of ?r j a] rj j(1) by simp
  moreover have "v \<le> a ! (?S ! ?r)" using spec r by auto
  ultimately have "a ! (?S ! ?r) = v" using i(2) j(2) by simp
  moreover have "?S ! ?r \<in> set ?S" using r by simp
  then have "?S ! ?r < length a" by (simp add: argsort_props)
  ultimately show ?thesis using r by (simp add: argsort_props)
qed

lemma lookup_indices_finds:
  assumes "\<forall>v\<in>set vs. v \<in> set a"
  shows "\<exists>is. lookup_indices a (argsort a) vs = Inr is \<and> length is = length vs \<and>
              (\<forall>k<length vs. is ! k < length a \<and> a ! (is ! k) = vs ! k)"
  using assms
proof (induction vs)
  case Nil
  then show ?case by simp
next
  case (Cons v vs)
  then obtain "is" where
    "is": "lookup_indices a (argsort a) vs = Inr is" "length is = length vs"
        "\<forall>k<length vs. is ! k < length a \<and> a ! (is ! k) = vs ! k"
    by auto
  from Cons.prems have "v \<in> set a" by simp
  note f = searchsorted_finds [OF this]
  let ?i = "argsort a ! searchsorted a v (argsort a)"
  have "lookup_indices a (argsort a) (v # vs) = Inr (?i # is)"
    using f "is"(1) by (simp add: subscript_def argsort_props)
  moreover have "\<forall>k<length (v # vs). (?i # is) ! k < length a \<and> a ! ((?i # is) ! k) = (v # vs) ! k"
  proof (intro allI impI)
    fix k assume "k < length (v # vs)"
    then show "(?i # is) ! k < length a \<and> a ! ((?i # is) ! k) = (v # vs) ! k"
      using f "is"(3) by (cases k) auto
  qed
  ultimately show ?case using "is"(2) by auto
qed

text \<open>
  C6: every fetched match whose source or target tile id is not in the global tile-id
  array is discarded (the surviving matches are exactly those with both ids present, in
  their order), and when the tile-id array has no duplicate identifiers the binary-search
  resolution succeeds and yields, for every surviving match \<open>k\<close>, indices \<open>pinds[k]\<close>
  and \<open>qinds[k]\<close> with \<open>tile_ids[pinds[k]]\<close> the match's source id and
  \<open>tile_ids[qinds[k]]\<close> its target id; they are the only such indices.
\<close>

theorem tile_ids_resolved:
  assumes "distinct tile_ids"
  shows "surviving tile_ids matches =
           filter (\<lambda>m. pId m \<in> set tile_ids \<and> qId m \<in> set tile_ids) matches
       \<and> (\<exists>ps qs. pinds tile_ids matches = Inr ps \<and> qinds tile_ids matches = Inr qs \<and>
            length ps = length (surviving tile_ids matches) \<and>
            length qs = length (surviving tile_ids matches) \<and>
            (\<forall>k<length (surviving tile_ids matches).
               ps ! k < length tile_ids \<and> qs ! k < length tile_ids \<and>
               tile_ids ! (ps ! k) = pId (surviving tile_ids matches ! k) \<and>
               tile_ids ! (qs ! k) = qId (surviving tile_ids matches ! k) \<and>
               (\<forall>i<length tile_ids.
                  (tile_ids ! i = pId (surviving tile_ids matches ! k) \<longrightarrow> i = ps ! k) \<and>
                  (tile_ids ! i = qId (surviving tile_ids matches ! k) \<longrightarrow> i = qs ! k))))"
proof -
  let ?sv = "surviving tile_ids matches"
  have sv: "?sv = filter (\<lambda>m. pId m \<in> set tile_ids \<and> qId m \<in> set tile_ids) matches"
    by (rule surviving_eq_filter)
  have pids: "compress (instack tile_ids matches) (map pId matches) = map pId ?sv"
    by (simp add: sv instack_eq compress_map_pred_map)
  have qids: "compress (instack tile_ids matches) (map qId matches) = map qId ?sv"
    by (simp add: sv instack_eq compress_map_pred_map)
  have "\<forall>v\<in>set (map pId ?sv). v \<in> set tile_ids" by (auto simp: sv)
  from lookup_indices_finds [OF this] obtain ps where
    ps: "pinds tile_ids matches = Inr ps" "length ps = length ?sv"
        "\<forall>k<length ?sv. ps ! k < length tile_ids \<and> tile_ids ! (ps ! k) = pId (?sv ! k)"
    by (auto simp: pinds_def pids)
  have "\<forall>v\<in>set (map qId ?sv). v \<in> set tile_ids" by (auto simp: sv)
  from lookup_indices_finds [OF this] obtain qs where
    qs: "qinds tile_ids matches = Inr qs" "length qs = length ?sv"
        "\<forall>k<length ?sv. qs ! k < length tile_ids \<and> tile_ids ! (qs ! k) = qId (?sv ! k)"
    by (auto simp: qinds_def qids)
  have uniq: "\<forall>k<length ?sv. \<forall>i<length tile_ids.
                  (tile_ids ! i = pId (?sv ! k) \<longrightarrow> i = ps ! k) \<and>
                  (tile_ids ! i = qId (?sv ! k) \<longrightarrow> i = qs ! k)"
  proof (intro allI impI conjI)
    fix k i assume k: "k < length ?sv" and i: "i < length tile_ids"
    { assume "tile_ids ! i = pId (?sv ! k)"
      with ps(3) k have "tile_ids ! i = tile_ids ! (ps ! k)" "ps ! k < length tile_ids"
        by simp_all
      with assms i show "i = ps ! k" by (simp add: nth_eq_iff_index_eq) }
    { assume "tile_ids ! i = qId (?sv ! k)"
      with qs(3) k have "tile_ids ! i = tile_ids ! (qs ! k)" "qs ! k < length tile_ids"
        by simp_all
      with assms i show "i = qs ! k" by (simp add: nth_eq_iff_index_eq) }
  qed
  have all: "\<forall>k<length ?sv.
               ps ! k < length tile_ids \<and> qs ! k < length tile_ids \<and>
               tile_ids ! (ps ! k) = pId (?sv ! k) \<and>
               tile_ids ! (qs ! k) = qId (?sv ! k) \<and>
               (\<forall>i<length tile_ids.
                  (tile_ids ! i = pId (?sv ! k) \<longrightarrow> i = ps ! k) \<and>
                  (tile_ids ! i = qId (?sv ! k) \<longrightarrow> i = qs ! k))"
    using ps(3) qs(3) uniq by blast
  show ?thesis
    apply (rule conjI [OF sv])
    apply (rule exI [of _ ps], rule exI [of _ qs])
    apply (intro conjI ps(1) qs(1) ps(2) qs(2) all)
    done
qed

text \<open>An instance: three tiles, three fetched matches, one of them with a foreign tile.\<close>

theorem tile_ids_resolved_witness:
  "distinct [30, 10, 20 :: nat]
   \<and> surviving [30, 10, 20 :: nat]
        [\<lparr>pId = 10, qId = 30\<rparr>, \<lparr>pId = 10, qId = 99\<rparr>, \<lparr>pId = 20, qId = 10\<rparr>]
      = [\<lparr>pId = 10, qId = 30\<rparr>, \<lparr>pId = 20, qId = 10\<rparr>]
   \<and> pinds [30, 10, 20 :: nat]
        [\<lparr>pId = 10, qId = 30\<rparr>, \<lparr>pId = 10, qId = 99\<rparr>, \<lparr>pId = 20, qId = 10\<rparr>]
      = Inr [1, 2]
   \<and> qinds [30, 10, 20 :: nat]
        [\<lparr>pId = 10, qId = 30\<rparr>, \<lparr>pId = 10, qId = 99\<rparr>, \<lparr>pId = 20, qId = 10\<rparr>]
      = Inr [0, 1]"
proof -
  have d: "distinct [30, 10, 20 :: nat]" by simp
  have s: "surviving [30, 10, 20 :: nat]
        [\<lparr>pId = 10, qId = 30\<rparr>, \<lparr>pId = 10, qId = 99\<rparr>, \<lparr>pId = 20, qId = 10\<rparr>]
      = [\<lparr>pId = 10, qId = 30\<rparr>, \<lparr>pId = 20, qId = 10\<rparr>]"
    by (simp add: surviving_def instack_def in1d_def compress_def)
  have p: "pinds [30, 10, 20 :: nat]
        [\<lparr>pId = 10, qId = 30\<rparr>, \<lparr>pId = 10, qId = 99\<rparr>, \<lparr>pId = 20, qId = 10\<rparr>]
      = Inr [1, 2]"
    by code_simp
  have q: "qinds [30, 10, 20 :: nat]
        [\<lparr>pId = 10, qId = 30\<rparr>, \<lparr>pId = 10, qId = 99\<rparr>, \<lparr>pId = 20, qId = 10\<rparr>]
      = Inr [0, 1]"
    by code_simp
  from tile_ids_resolved [OF d,
      of "[\<lparr>pId = 10, qId = 30\<rparr>, \<lparr>pId = 10, qId = 99\<rparr>, \<lparr>pId = 20, qId = 10\<rparr>]"] d s p q
  show ?thesis by simp
qed

subsection \<open>The assembled arrays\<close>

lemma assign_range_take:
  assumes "assign_range buf off n vals = Inr buf'" "length vals = n" "off \<le> length buf"
  shows "off + n \<le> length buf' \<and> take (off + n) buf' = take off buf @ vals"
proof (cases "n = 0")
  case True
  with assms show ?thesis by (simp add: assign_range_def)
next
  case False
  with assms have le: "off + n \<le> length buf"
    by (auto simp: assign_range_def split: if_splits)
  with assms have "buf' = take off buf @ vals @ drop (off + n) buf"
    by (auto simp: assign_range_def split: if_splits)
  with le assms(2,3) show ?thesis by simp
qed

lemma multiples_append:
  "map (\<lambda>j. int (j * c)) [0..<r + 1] @ map (\<lambda>x. x + int (r * c)) (map (\<lambda>j. int ((j + 1) * c)) [0..<m])
   = map (\<lambda>j. int (j * c)) [0..<r + m + 1]"
proof (rule nth_equalityI)
  show "length (map (\<lambda>j. int (j * c)) [0..<r + 1] @
          map (\<lambda>x. x + int (r * c)) (map (\<lambda>j. int ((j + 1) * c)) [0..<m]))
        = length (map (\<lambda>j. int (j * c)) [0..<r + m + 1])"
    by simp
next
  fix i
  assume "i < length (map (\<lambda>j. int (j * c)) [0..<r + 1] @
          map (\<lambda>x. x + int (r * c)) (map (\<lambda>j. int ((j + 1) * c)) [0..<m]))"
  then have i: "i < r + m + 1" by simp
  show "(map (\<lambda>j. int (j * c)) [0..<r + 1] @
          map (\<lambda>x. x + int (r * c)) (map (\<lambda>j. int ((j + 1) * c)) [0..<m])) ! i
        = map (\<lambda>j. int (j * c)) [0..<r + m + 1] ! i"
  proof (cases "i < r + 1")
    case True
    have "(map (\<lambda>j. int (j * c)) [0..<r + 1] @
          map (\<lambda>x. x + int (r * c)) (map (\<lambda>j. int ((j + 1) * c)) [0..<m])) ! i
        = map (\<lambda>j. int (j * c)) [0..<r + 1] ! i"
      using True by (simp add: nth_append del: upt_Suc)
    also have "\<dots> = int (i * c)"
      using True by (simp del: upt_Suc)
    also have "\<dots> = map (\<lambda>j. int (j * c)) [0..<r + m + 1] ! i"
      using i by (simp del: upt_Suc)
    finally show ?thesis .
  next
    case False
    define k where "k = i - (r + 1)"
    have k: "k < m" "i = r + 1 + k" using False i by (simp_all add: k_def)
    have "(map (\<lambda>j. int (j * c)) [0..<r + 1] @
          map (\<lambda>x. x + int (r * c)) (map (\<lambda>j. int ((j + 1) * c)) [0..<m])) ! i
        = map (\<lambda>x. x + int (r * c)) (map (\<lambda>j. int ((j + 1) * c)) [0..<m]) ! k"
      using False by (simp add: nth_append k_def del: upt_Suc)
    also have "\<dots> = int ((k + 1) * c) + int (r * c)"
      using k(1) by (simp del: upt_Suc)
    also have "\<dots> = int (i * c)"
      unfolding k(2) by (simp add: add_mult_distrib)
    also have "\<dots> = map (\<lambda>j. int (j * c)) [0..<r + m + 1] ! i"
      using i by (simp del: upt_Suc)
    finally show ?thesis .
  qed
qed

lemma splice_block_inv:
  assumes ok: "block_ok tf blk"
    and run: "splice_block fmul tf fac p q blk st = Inr st'"
    and inv: "assembled tf st D I W"
  shows "assembled tf st' (D @ block_values blk) (I @ block_columns blk)
           (W @ map (\<lambda>w. fmul w fac) (block_weights blk))"
proof -
  obtain d ind iptr wts npts where blk: "blk = (d, ind, iptr, wts, npts)"
    by (cases blk) auto
  define r where "r = nrows st"
  define c where "c = nnz_per_row tf"
  define m where "m = npts * rows_per_ptmatch tf"
  from ok blk have len: "length d = m * c" "length ind = m * c" "length wts = m"
    and iptr: "iptr = map (\<lambda>j. int ((j + 1) * c)) [0..<m]"
    by (simp_all add: block_ok_def m_def c_def)
  from inv have i:
    "r * c \<le> length (buf_data st)" "take (r * c) (buf_data st) = D"
    "r * c \<le> length (buf_indices st)" "take (r * c) (buf_indices st) = I"
    "r \<le> length (buf_weights st)" "take r (buf_weights st) = W"
    "r < length (buf_indptr st)"
    "take (r + 1) (buf_indptr st) = map (\<lambda>j. int (j * c)) [0..<r + 1]"
    by (simp_all add: assembled_def r_def c_def)
  from run blk obtain u2 data' indices' weights' base indptr' where
    s: "assign_range (buf_data st) (r * c) (m * c) d = Inr data'"
       "assign_range (buf_indices st) (r * c) (m * c) ind = Inr indices'"
       "assign_range (buf_weights st) r m (map (\<lambda>w. fmul w fac) wts) = Inr weights'"
       "subscript (buf_indptr st) r = Inr base"
       "assign_range (buf_indptr st) (r + 1) m (map (\<lambda>x. x + base) iptr) = Inr indptr'"
    and st': "st' = \<lparr>used = u2, buf_data = data', buf_indices = indices',
                buf_indptr = indptr', buf_weights = weights', nrows = r + length wts\<rparr>"
    by (auto simp: splice_block_def r_def c_def m_def split: sum.splits)
  have rc: "(r + m) * c = r * c + m * c" by (simp add: add_mult_distrib)
  from assign_range_take [OF s(1) len(1) i(1)] i(2)
  have 1: "(r + m) * c \<le> length data'" "take ((r + m) * c) data' = D @ d"
    by (simp_all add: rc)
  from assign_range_take [OF s(2) len(2) i(3)] i(4)
  have 2: "(r + m) * c \<le> length indices'" "take ((r + m) * c) indices' = I @ ind"
    by (simp_all add: rc)
  have "length (map (\<lambda>w. fmul w fac) wts) = m" using len(3) by simp
  from assign_range_take [OF s(3) this i(5)] i(6)
  have 3: "r + m \<le> length weights'" "take (r + m) weights' = W @ map (\<lambda>w. fmul w fac) wts"
    by simp_all
  have "base = buf_indptr st ! r" using s(4) i(7) by (simp add: subscript_def)
  also have "\<dots> = take (r + 1) (buf_indptr st) ! r" by simp
  also have "\<dots> = int (r * c)" unfolding i(8) by (simp del: upt_Suc)
  finally have base: "base = int (r * c)" .
  have "length (map (\<lambda>x. x + base) iptr) = m" by (simp add: iptr)
  from assign_range_take [OF s(5) this] i(7,8)
  have 4: "r + 1 + m \<le> length indptr'"
    "take (r + 1 + m) indptr' =
       map (\<lambda>j. int (j * c)) [0..<r + 1] @ map (\<lambda>x. x + base) iptr"
    by simp_all
  have 5: "take (r + m + 1) indptr' = map (\<lambda>j. int (j * c)) [0..<r + m + 1]"
    using 4(2) multiples_append [of c r m] by (simp add: base iptr add.commute add.left_commute)
  from 1 2 3 4(1) 5 show ?thesis
    by (simp add: assembled_def st' blk len(3) block_values_def block_columns_def
        block_weights_def c_def [symmetric])
qed


lemma assemble_loop_inv:
  assumes ok: "\<forall>k m p q lo hi r blk.
                 CSR_from_tilepair tf k m p q lo hi r = Some blk \<longrightarrow> block_ok tf blk"
    and run: "assemble_loop fmul tf ma fac k ms st = Inr st'"
    and inv: "assembled tf st D I W"
  shows "assembled tf st'
           (D @ concat (map block_values (spliced_blocks tf ma k ms)))
           (I @ concat (map block_columns (spliced_blocks tf ma k ms)))
           (W @ concat (map (\<lambda>blk. map (\<lambda>w. fmul w fac) (block_weights blk))
                          (spliced_blocks tf ma k ms)))"
  using run inv
proof (induction ms arbitrary: k st D I W)
  case Nil
  then show ?case by simp
next
  case (Cons x ms)
  obtain m p q where x: "x = (m, p, q)" by (cases x) auto
  show ?case
  proof (cases "CSR_from_tilepair tf k m p q (npts_min ma) (npts_max ma) (choose_random ma)")
    case None
    with Cons.prems x have "assemble_loop fmul tf ma fac (Suc k) ms st = Inr st'" by simp
    from Cons.IH [OF this Cons.prems(2)] None x show ?thesis by simp
  next
    case (Some blk)
    with ok have bok: "block_ok tf blk" by blast
    from Cons.prems(1) x Some obtain st1 where
      st1: "splice_block fmul tf fac p q blk st = Inr st1"
           "assemble_loop fmul tf ma fac (Suc k) ms st1 = Inr st'"
      by (auto split: sum.splits)
    from splice_block_inv [OF bok st1(1) Cons.prems(2)]
    have "assembled tf st1 (D @ block_values blk) (I @ block_columns blk)
           (W @ map (\<lambda>w. fmul w fac) (block_weights blk))" .
    from Cons.IH [OF st1(2) this] Some x show ?thesis by simp
  qed
qed

lemma splice_block_used:
  "splice_block fmul tf fac p q blk st = Inr st' \<Longrightarrow> length (used st') = length (used st)"
  by (cases blk)
     (auto simp: splice_block_def set_true_def split: sum.splits if_splits)

lemma assemble_loop_used:
  "assemble_loop fmul tf ma fac k ms st = Inr st' \<Longrightarrow> length (used st') = length (used st)"
proof (induction ms arbitrary: k st)
  case Nil
  then show ?case by simp
next
  case (Cons x ms)
  obtain m p q where x: "x = (m, p, q)" by (cases x) auto
  show ?case
  proof (cases "CSR_from_tilepair tf k m p q (npts_min ma) (npts_max ma) (choose_random ma)")
    case None
    with Cons x show ?thesis by simp
  next
    case (Some blk)
    from Cons.prems x Some obtain st1 where
      st1: "splice_block fmul tf fac p q blk st = Inr st1"
           "assemble_loop fmul tf ma fac (Suc k) ms st1 = Inr st'"
      by (auto split: sum.splits)
    from Cons.IH [OF st1(2)] splice_block_used [OF st1(1)] show ?thesis by simp
  qed
qed


lemma sorted_multiples: "sorted (map (\<lambda>j. int (j * c)) [0..<n])"
  by (auto simp: sorted_iff_nth_mono mult_right_mono simp del: upt_Suc)

lemma assembled_chunk_arrays:
  assumes ok: "\<forall>k m p q lo hi r blk.
                 CSR_from_tilepair tf k m p q lo hi r = Some blk \<longrightarrow> block_ok tf blk"
    and run: "calculate_processing_chunk fdiv fmul tf matches z1 z2 ma tile_ids
                = Inr (c :: ('v::zero, 'w::zero) chunk)"
    and arr: "arrays c = Some a"
  shows "\<exists>fac. tilepair_weight fdiv z1 z2 ma = Inr fac \<and>
           data a = concat (map block_values (chunk_blocks tf ma tile_ids matches)) \<and>
           indices a = concat (map block_columns (chunk_blocks tf ma tile_ids matches)) \<and>
           weights a = concat (map (\<lambda>blk. map (\<lambda>w. fmul w fac) (block_weights blk))
                                 (chunk_blocks tf ma tile_ids matches)) \<and>
           length (weights a) =
             (\<Sum>blk\<leftarrow>chunk_blocks tf ma tile_ids matches. length (block_weights blk)) \<and>
           indptr a = map (\<lambda>j. int (j * nnz_per_row tf)) [0..<length (weights a) + 1] \<and>
           length (indptr a) = length (weights a) + 1 \<and>
           hd (indptr a) = 0 \<and>
           sorted (indptr a) \<and>
           last (indptr a) = int (length (data a))"
proof -
  let ?sv = "surviving tile_ids matches"
  define nd where "nd = nnz_per_row tf * rows_per_ptmatch tf * npts_max ma * length ?sv"
  define ni where "ni = rows_per_ptmatch tf * npts_max ma * length ?sv"
  define st0 :: "('v, 'w) buffers" where
    "st0 = \<lparr>used = replicate (length tile_ids) False,
            buf_data = replicate nd 0, buf_indices = replicate nd 0,
            buf_indptr = replicate (ni + 1) 0, buf_weights = replicate ni 0,
            nrows = 0\<rparr>"
  from run arr have ne: "matches \<noteq> []" "?sv \<noteq> []"
    by (auto simp: calculate_processing_chunk_def empty_chunk_def split: if_splits)
  with run obtain ps qs fac st where
    ps: "pinds tile_ids matches = Inr ps" and qs: "qinds tile_ids matches = Inr qs"
    and fac: "tilepair_weight fdiv z1 z2 ma = Inr fac"
    and loop: "assemble_loop fmul tf ma fac 0 (zip ?sv (zip ps qs)) st0 = Inr st"
    and c: "c = \<lparr>tiles_used = used st,
                  arrays = Some
                    \<lparr>data = take (nrows st * nnz_per_row tf) (buf_data st),
                     indices = take (nrows st * nnz_per_row tf) (buf_indices st),
                     indptr = take (nrows st + 1) (buf_indptr st),
                     weights = take (nrows st) (buf_weights st)\<rparr>,
                  nchunks = 0, zlist = [z1, z2]\<rparr>"
    by (auto simp: calculate_processing_chunk_def Let_def st0_def nd_def ni_def
        split: sum.splits)
  have B: "chunk_blocks tf ma tile_ids matches = spliced_blocks tf ma 0 (zip ?sv (zip ps qs))"
    by (simp add: chunk_blocks_def ps qs)
  have "assembled tf st0 [] [] []"
    by (simp add: assembled_def st0_def)
  from assemble_loop_inv [OF ok loop this]
  have inv: "assembled tf st
           (concat (map block_values (chunk_blocks tf ma tile_ids matches)))
           (concat (map block_columns (chunk_blocks tf ma tile_ids matches)))
           (concat (map (\<lambda>blk. map (\<lambda>w. fmul w fac) (block_weights blk))
                          (chunk_blocks tf ma tile_ids matches)))"
    by (simp add: B)
  from c arr have a: "a = \<lparr>data = take (nrows st * nnz_per_row tf) (buf_data st),
                     indices = take (nrows st * nnz_per_row tf) (buf_indices st),
                     indptr = take (nrows st + 1) (buf_indptr st),
                     weights = take (nrows st) (buf_weights st)\<rparr>"
    by simp
  from inv have
    i1: "nrows st * nnz_per_row tf \<le> length (buf_data st)" and
    i2: "take (nrows st * nnz_per_row tf) (buf_data st) =
           concat (map block_values (chunk_blocks tf ma tile_ids matches))" and
    i4: "take (nrows st * nnz_per_row tf) (buf_indices st) =
           concat (map block_columns (chunk_blocks tf ma tile_ids matches))" and
    i5: "nrows st \<le> length (buf_weights st)" and
    i6: "take (nrows st) (buf_weights st) =
           concat (map (\<lambda>blk. map (\<lambda>w. fmul w fac) (block_weights blk))
                          (chunk_blocks tf ma tile_ids matches))" and
    i8: "take (nrows st + 1) (buf_indptr st) =
           map (\<lambda>j. int (j * nnz_per_row tf)) [0..<nrows st + 1]"
    unfolding assembled_def by blast+
  have d: "data a = concat (map block_values (chunk_blocks tf ma tile_ids matches))"
    unfolding a using i2 by simp
  have i: "indices a = concat (map block_columns (chunk_blocks tf ma tile_ids matches))"
    unfolding a using i4 by simp
  have w: "weights a = concat (map (\<lambda>blk. map (\<lambda>w. fmul w fac) (block_weights blk))
                                 (chunk_blocks tf ma tile_ids matches))"
    unfolding a using i6 by simp
  have lw: "length (weights a) = nrows st"
    unfolding a using i5 by simp
  have ld: "length (data a) = nrows st * nnz_per_row tf"
    unfolding a using i1 by simp
  have p: "indptr a = map (\<lambda>j. int (j * nnz_per_row tf)) [0..<nrows st + 1]"
    unfolding a using i8 by simp
  have rows: "length (weights a) =
             (\<Sum>blk\<leftarrow>chunk_blocks tf ma tile_ids matches. length (block_weights blk))"
    unfolding w by (simp add: length_concat comp_def)
  have p': "indptr a = map (\<lambda>j. int (j * nnz_per_row tf)) [0..<length (weights a) + 1]"
    using p lw by simp
  have lp: "length (indptr a) = length (weights a) + 1"
    unfolding p' by simp
  have hd0: "hd (indptr a) = 0"
    unfolding p by (simp add: hd_map upt_conv_Cons del: upt_Suc)
  have srt: "sorted (indptr a)"
    unfolding p by (rule sorted_multiples)
  have lst: "last (indptr a) = int (length (data a))"
    unfolding p ld by simp
  from fac d i w rows p' lp hd0 srt lst show ?thesis by blast
qed

subsection \<open>A chunk is produced\<close>

text \<open>
  The pre-allocation is large enough: when the transform model keeps to its contract and
  never returns more than \<open>npts_max\<close> points for a match, and the pair weight factor is
  defined, no index assignment of the loop fails and the function returns a chunk, whose
  used-tile mask has one entry per tile.
\<close>

lemma chunk_mask_length:
  assumes "calculate_processing_chunk fdiv fmul tf matches z1 z2 ma tile_ids
             = Inr (c :: ('v::zero, 'w::zero) chunk)"
  shows "length (tiles_used c) = length tile_ids"
proof (cases "matches = [] \<or> surviving tile_ids matches = []")
  case True
  with assms have "c = empty_chunk (length tile_ids)"
    by (auto simp: calculate_processing_chunk_def split: if_splits)
  then show ?thesis by (simp add: empty_chunk_def)
next
  case False
  with assms obtain ms fac st0 st where
    loop: "assemble_loop fmul tf ma fac 0 ms st0 = Inr (st :: ('v, 'w) buffers)"
    and st0: "used st0 = replicate (length tile_ids) False"
    and c: "tiles_used c = used st"
    by (auto simp: calculate_processing_chunk_def Let_def split: sum.splits if_splits)
  from assemble_loop_used [OF loop] st0 c show ?thesis by simp
qed


lemma assign_range_ok:
  assumes "length vals = n" "off + n \<le> length buf"
  shows "\<exists>buf'. assign_range buf off n vals = Inr buf' \<and> length buf' = length buf"
  using assms by (auto simp: assign_range_def)

lemma splice_block_ok:
  fixes st :: "('v, 'w) buffers"
  assumes ok: "block_ok tf (d, ind, iptr, wts, npts)"
    and p: "p < length (used st)" and q: "q < length (used st)"
    and ld: "length (buf_data st) = ni * nnz_per_row tf"
    and li: "length (buf_indices st) = ni * nnz_per_row tf"
    and lw: "length (buf_weights st) = ni"
    and lp: "length (buf_indptr st) = ni + 1"
    and cap: "nrows st + npts * rows_per_ptmatch tf \<le> ni"
  shows "\<exists>st'. splice_block fmul tf fac p q (d, ind, iptr, wts, npts) st = Inr st' \<and>
           length (used st') = length (used st) \<and>
           length (buf_data st') = ni * nnz_per_row tf \<and>
           length (buf_indices st') = ni * nnz_per_row tf \<and>
           length (buf_weights st') = ni \<and>
           length (buf_indptr st') = ni + 1 \<and>
           nrows st' = nrows st + npts * rows_per_ptmatch tf"
proof -
  define r where "r = nrows st"
  define c where "c = nnz_per_row tf"
  define m where "m = npts * rows_per_ptmatch tf"
  from ok have len: "length d = m * c" "length ind = m * c" "length wts = m" "length iptr = m"
    by (simp_all add: block_ok_def m_def c_def)
  have rm: "r + m \<le> ni" using cap by (simp add: r_def m_def)
  then have "(r + m) * c \<le> ni * c" by (rule mult_le_mono1)
  then have rc: "r * c + m * c \<le> ni * c" by (simp add: add_mult_distrib)
  from assign_range_ok [OF len(1), of "r * c" "buf_data st"] rc ld obtain data' where
    1: "assign_range (buf_data st) (r * c) (m * c) d = Inr data'" "length data' = ni * c"
    by (auto simp: c_def)
  from assign_range_ok [OF len(2), of "r * c" "buf_indices st"] rc li obtain indices' where
    2: "assign_range (buf_indices st) (r * c) (m * c) ind = Inr indices'"
       "length indices' = ni * c"
    by (auto simp: c_def)
  have "length (map (\<lambda>w. fmul w fac) wts) = m" using len(3) by simp
  from assign_range_ok [OF this, of r "buf_weights st"] rm lw obtain weights' where
    3: "assign_range (buf_weights st) r m (map (\<lambda>w. fmul w fac) wts) = Inr weights'"
       "length weights' = ni"
    by auto
  have 4: "subscript (buf_indptr st) r = Inr (buf_indptr st ! r)"
    using rm lp by (simp add: subscript_def)
  have "length (map (\<lambda>x. x + buf_indptr st ! r) iptr) = m" using len(4) by simp
  from assign_range_ok [OF this, of "r + 1" "buf_indptr st"] rm lp obtain indptr' where
    5: "assign_range (buf_indptr st) (r + 1) m (map (\<lambda>x. x + buf_indptr st ! r) iptr)
          = Inr indptr'"
       "length indptr' = ni + 1"
    by auto
  have "splice_block fmul tf fac p q (d, ind, iptr, wts, npts) st =
          Inr \<lparr>used = (used st)[p := True, q := True], buf_data = data',
               buf_indices = indices', buf_indptr = indptr', buf_weights = weights',
               nrows = r + length wts\<rparr>"
    using p q 1(1) 2(1) 3(1) 4 5(1)
    by (simp add: splice_block_def set_true_def r_def c_def m_def)
  with 1(2) 2(2) 3(2) 5(2) len(3) show ?thesis
    by (simp add: r_def c_def m_def)
qed

lemma assemble_loop_ok:
  fixes st :: "('v, 'w) buffers"
  assumes ok: "\<forall>k m p q lo hi r blk.
                 CSR_from_tilepair tf k m p q lo hi r = Some blk \<longrightarrow> block_ok tf blk"
    and bound: "\<forall>k m p q lo hi r d ind iptr wts npts.
                 CSR_from_tilepair tf k m p q lo hi r = Some (d, ind, iptr, wts, npts)
                 \<longrightarrow> npts \<le> hi"
    and idx: "\<forall>(m, p, q)\<in>set ms. p < length (used st) \<and> q < length (used st)"
    and ld: "length (buf_data st) = ni * nnz_per_row tf"
    and li: "length (buf_indices st) = ni * nnz_per_row tf"
    and lw: "length (buf_weights st) = ni"
    and lp: "length (buf_indptr st) = ni + 1"
    and cap: "nrows st + length ms * (npts_max ma * rows_per_ptmatch tf) \<le> ni"
  shows "\<exists>st'. assemble_loop fmul tf ma fac k ms st = Inr st'"
  using idx ld li lw lp cap
proof (induction ms arbitrary: k st)
  case Nil
  then show ?case by simp
next
  case (Cons x ms)
  obtain m p q where x: "x = (m, p, q)" by (cases x) auto
  have idx': "\<forall>(m, p, q)\<in>set ms. p < length (used st) \<and> q < length (used st)"
    using Cons.prems(1) by simp
  have pq: "p < length (used st)" "q < length (used st)"
    using Cons.prems(1) x by simp_all
  have cap': "nrows st + length ms * (npts_max ma * rows_per_ptmatch tf) \<le> ni"
    using Cons.prems(6) by simp
  show ?case
  proof (cases "CSR_from_tilepair tf k m p q (npts_min ma) (npts_max ma) (choose_random ma)")
    case None
    from Cons.IH [OF idx' Cons.prems(2,3,4,5) cap', of "Suc k"] None x
    show ?thesis by simp
  next
    case (Some blk)
    obtain d ind iptr wts npts where blk: "blk = (d, ind, iptr, wts, npts)"
      by (cases blk) auto
    from ok Some blk have bok: "block_ok tf (d, ind, iptr, wts, npts)" by blast
    from bound Some blk have "npts \<le> npts_max ma" by blast
    then have le: "npts * rows_per_ptmatch tf \<le> npts_max ma * rows_per_ptmatch tf"
      by (rule mult_le_mono1)
    have "nrows st + npts_max ma * rows_per_ptmatch tf
               + length ms * (npts_max ma * rows_per_ptmatch tf) \<le> ni"
      using Cons.prems(6) by simp
    with le have
      cap1: "nrows st + npts * rows_per_ptmatch tf
               + length ms * (npts_max ma * rows_per_ptmatch tf) \<le> ni"
      by linarith
    then have cap0: "nrows st + npts * rows_per_ptmatch tf \<le> ni" by simp
    from splice_block_ok [OF bok pq Cons.prems(2,3,4,5) cap0, of fmul fac]
    obtain st1 where
      st1: "splice_block fmul tf fac p q (d, ind, iptr, wts, npts) st = Inr st1"
           "length (used st1) = length (used st)"
           "length (buf_data st1) = ni * nnz_per_row tf"
           "length (buf_indices st1) = ni * nnz_per_row tf"
           "length (buf_weights st1) = ni"
           "length (buf_indptr st1) = ni + 1"
           "nrows st1 = nrows st + npts * rows_per_ptmatch tf"
      by blast
    have idx1: "\<forall>(m, p, q)\<in>set ms. p < length (used st1) \<and> q < length (used st1)"
      using idx' st1(2) by simp
    have cap2: "nrows st1 + length ms * (npts_max ma * rows_per_ptmatch tf) \<le> ni"
      using cap1 st1(7) by simp
    from Cons.IH [OF idx1 st1(3,4,5,6) cap2, of "Suc k"] Some x blk st1(1)
    show ?thesis by simp
  qed
qed


lemma resolved_indices_exist:
  "\<exists>ps qs. pinds tile_ids matches = Inr ps \<and> qinds tile_ids matches = Inr qs \<and>
           length ps = length (surviving tile_ids matches) \<and>
           length qs = length (surviving tile_ids matches) \<and>
           (\<forall>p\<in>set ps. p < length tile_ids) \<and> (\<forall>q\<in>set qs. q < length tile_ids)"
proof -
  let ?sv = "surviving tile_ids matches"
  have sv: "?sv = filter (\<lambda>m. pId m \<in> set tile_ids \<and> qId m \<in> set tile_ids) matches"
    by (rule surviving_eq_filter)
  have pids: "compress (instack tile_ids matches) (map pId matches) = map pId ?sv"
    by (simp add: sv instack_eq compress_map_pred_map)
  have qids: "compress (instack tile_ids matches) (map qId matches) = map qId ?sv"
    by (simp add: sv instack_eq compress_map_pred_map)
  have "\<forall>v\<in>set (map pId ?sv). v \<in> set tile_ids" by (auto simp: sv)
  from lookup_indices_finds [OF this] obtain ps where
    ps: "pinds tile_ids matches = Inr ps" "length ps = length ?sv"
        "\<forall>k<length ?sv. ps ! k < length tile_ids"
    by (auto simp: pinds_def pids)
  have "\<forall>v\<in>set (map qId ?sv). v \<in> set tile_ids" by (auto simp: sv)
  from lookup_indices_finds [OF this] obtain qs where
    qs: "qinds tile_ids matches = Inr qs" "length qs = length ?sv"
        "\<forall>k<length ?sv. qs ! k < length tile_ids"
    by (auto simp: qinds_def qids)
  have "\<forall>p\<in>set ps. p < length tile_ids" using ps(2,3) by (auto simp: in_set_conv_nth)
  moreover have "\<forall>q\<in>set qs. q < length tile_ids" using qs(2,3) by (auto simp: in_set_conv_nth)
  ultimately show ?thesis using ps(1,2) qs(1,2) by blast
qed

lemma chunk_is_produced:
  assumes ok: "\<forall>k m p q lo hi r blk.
                 CSR_from_tilepair tf k m p q lo hi r = Some blk \<longrightarrow> block_ok tf blk"
    and bound: "\<forall>k m p q lo hi r d ind iptr wts npts.
                 CSR_from_tilepair tf k m p q lo hi r = Some (d, ind, iptr, wts, npts)
                 \<longrightarrow> npts \<le> hi"
    and fac: "tilepair_weight fdiv z1 z2 ma = Inr fac"
  shows "\<exists>c :: ('v::zero, 'w::zero) chunk.
           calculate_processing_chunk fdiv fmul tf matches z1 z2 ma tile_ids = Inr c"
proof (cases "matches = [] \<or> surviving tile_ids matches = []")
  case True
  then show ?thesis by (auto simp: calculate_processing_chunk_def)
next
  case False
  let ?sv = "surviving tile_ids matches"
  define ni where "ni = rows_per_ptmatch tf * npts_max ma * length ?sv"
  define nd where "nd = nnz_per_row tf * rows_per_ptmatch tf * npts_max ma * length ?sv"
  define st0 :: "('v, 'w) buffers" where
    "st0 = \<lparr>used = replicate (length tile_ids) False,
            buf_data = replicate nd 0, buf_indices = replicate nd 0,
            buf_indptr = replicate (ni + 1) 0, buf_weights = replicate ni 0,
            nrows = 0\<rparr>"
  from resolved_indices_exist [of tile_ids matches] obtain ps qs where
    ps: "pinds tile_ids matches = Inr ps" and qs: "qinds tile_ids matches = Inr qs"
    and len: "length ps = length ?sv" "length qs = length ?sv"
    and bd: "\<forall>p\<in>set ps. p < length tile_ids" "\<forall>q\<in>set qs. q < length tile_ids"
    by blast
  have nd: "nd = ni * nnz_per_row tf" by (simp add: nd_def ni_def)
  have idx: "\<forall>(m, p, q)\<in>set (zip ?sv (zip ps qs)).
               p < length (used st0) \<and> q < length (used st0)"
  proof (clarify)
    fix m p q assume "(m, p, q) \<in> set (zip ?sv (zip ps qs))"
    then have "(p, q) \<in> set (zip ps qs)" by (rule set_zip_rightD)
    then have "p \<in> set ps" "q \<in> set qs"
      by (auto dest: set_zip_leftD set_zip_rightD)
    with bd show "p < length (used st0) \<and> q < length (used st0)"
      by (simp add: st0_def)
  qed
  have cap: "nrows st0 + length (zip ?sv (zip ps qs)) * (npts_max ma * rows_per_ptmatch tf)
               \<le> ni"
    using len by (simp add: st0_def ni_def)
  from assemble_loop_ok [OF ok bound idx _ _ _ _ cap, of fmul fac 0]
  obtain st where "assemble_loop fmul tf ma fac 0 (zip ?sv (zip ps qs)) st0 = Inr st"
    by (auto simp: st0_def nd)
  with False ps qs fac show ?thesis
    by (simp add: calculate_processing_chunk_def Let_def st0_def nd_def ni_def)
qed

lemma chunk_has_arrays:
  assumes "calculate_processing_chunk fdiv fmul tf matches z1 z2 ma tile_ids
             = Inr (c :: ('v::zero, 'w::zero) chunk)"
    and "surviving tile_ids matches \<noteq> []"
  shows "\<exists>a. arrays c = Some a"
proof -
  from assms(2) have "matches \<noteq> []"
    by (auto simp: surviving_def compress_def)
  with assms show ?thesis
    by (auto simp: calculate_processing_chunk_def Let_def split: sum.splits if_splits)
qed

text \<open>
  C1: under the precondition that every sub-block returned by the transform model has
  consistent array lengths and exactly \<open>nnz_per_row\<close> non-zeros per row, every chunk that
  \<open>calculate_processing_chunk\<close> produces for a group with surviving matches carries
  arrays, and: the row-pointer array has length row count plus one, starts at 0, is
  non-decreasing, and its last value is the length of the value array; the weight array
  has one entry per row; and the truncated arrays are exactly the entries spliced in
  during assembly (the values and column indices of the sub-blocks in loop order, their
  weights scaled by the pair weight factor), with none of the zero padding of the
  pre-allocation left.  Such a chunk is produced whenever the transform model returns at
  most \<open>npts_max\<close> points per match and the pair weight factor is defined.
\<close>

theorem chunk_csr_invariants:
  assumes ok: "\<forall>k m p q lo hi r blk.
                 CSR_from_tilepair tf k m p q lo hi r = Some blk \<longrightarrow> block_ok tf blk"
    and ne: "surviving tile_ids matches \<noteq> []"
  shows "(\<forall>c :: ('v::zero, 'w::zero) chunk.
            calculate_processing_chunk fdiv fmul tf matches z1 z2 ma tile_ids = Inr c \<longrightarrow>
            (\<exists>a fac. arrays c = Some a \<and>
               tilepair_weight fdiv z1 z2 ma = Inr fac \<and>
               data a = concat (map block_values (chunk_blocks tf ma tile_ids matches)) \<and>
               indices a = concat (map block_columns (chunk_blocks tf ma tile_ids matches)) \<and>
               weights a = concat (map (\<lambda>blk. map (\<lambda>w. fmul w fac) (block_weights blk))
                                     (chunk_blocks tf ma tile_ids matches)) \<and>
               length (weights a) =
                 (\<Sum>blk\<leftarrow>chunk_blocks tf ma tile_ids matches. length (block_weights blk)) \<and>
               indptr a = map (\<lambda>j. int (j * nnz_per_row tf)) [0..<length (weights a) + 1] \<and>
               length (indptr a) = length (weights a) + 1 \<and>
               hd (indptr a) = 0 \<and>
               sorted (indptr a) \<and>
               last (indptr a) = int (length (data a))))
       \<and> ((\<forall>k m p q lo hi r d ind iptr wts npts.
               CSR_from_tilepair tf k m p q lo hi r = Some (d, ind, iptr, wts, npts)
               \<longrightarrow> npts \<le> hi) \<and>
            (\<exists>fac. tilepair_weight fdiv z1 z2 ma = Inr fac) \<longrightarrow>
            (\<exists>c :: ('v, 'w) chunk.
               calculate_processing_chunk fdiv fmul tf matches z1 z2 ma tile_ids = Inr c))"
proof (intro conjI allI impI)
  fix c :: "('v, 'w) chunk"
  assume run: "calculate_processing_chunk fdiv fmul tf matches z1 z2 ma tile_ids = Inr c"
  from chunk_has_arrays [OF run ne] obtain a where a: "arrays c = Some a" by blast
  from assembled_chunk_arrays [OF ok run a] a
  show "\<exists>a fac. arrays c = Some a \<and>
               tilepair_weight fdiv z1 z2 ma = Inr fac \<and>
               data a = concat (map block_values (chunk_blocks tf ma tile_ids matches)) \<and>
               indices a = concat (map block_columns (chunk_blocks tf ma tile_ids matches)) \<and>
               weights a = concat (map (\<lambda>blk. map (\<lambda>w. fmul w fac) (block_weights blk))
                                     (chunk_blocks tf ma tile_ids matches)) \<and>
               length (weights a) =
                 (\<Sum>blk\<leftarrow>chunk_blocks tf ma tile_ids matches. length (block_weights blk)) \<and>
               indptr a = map (\<lambda>j. int (j * nnz_per_row tf)) [0..<length (weights a) + 1] \<and>
               length (indptr a) = length (weights a) + 1 \<and>
               hd (indptr a) = 0 \<and>
               sorted (indptr a) \<and>
               last (indptr a) = int (length (data a))"
    by blast
next
  assume "(\<forall>k m p q lo hi r d ind iptr wts npts.
               CSR_from_tilepair tf k m p q lo hi r = Some (d, ind, iptr, wts, npts)
               \<longrightarrow> npts \<le> hi) \<and>
            (\<exists>fac. tilepair_weight fdiv z1 z2 ma = Inr fac)"
  then obtain fac where
    bound: "\<forall>k m p q lo hi r d ind iptr wts npts.
               CSR_from_tilepair tf k m p q lo hi r = Some (d, ind, iptr, wts, npts)
               \<longrightarrow> npts \<le> hi"
    and fac: "tilepair_weight fdiv z1 z2 ma = Inr fac" by blast
  from chunk_is_produced [OF ok bound fac]
  show "\<exists>c :: ('v, 'w) chunk.
               calculate_processing_chunk fdiv fmul tf matches z1 z2 ma tile_ids = Inr c" .
qed

text \<open>
  An instance: four fetched matches, one with a foreign tile; three point slots are
  allocated per surviving match; the first match contributes two rows, the second one
  row, the third is skipped.
\<close>

theorem chunk_csr_invariants_witness:
  "surviving [30, 10, 20 :: nat]
     [\<lparr>pId = 10, qId = 30\<rparr>, \<lparr>pId = 10, qId = 99\<rparr>, \<lparr>pId = 20, qId = 10\<rparr>,
      \<lparr>pId = 30, qId = 20\<rparr>] \<noteq> []
   \<and> calculate_processing_chunk real_div (*)
     \<lparr>nnz_per_row = 2, rows_per_ptmatch = 1,
      CSR_from_tilepair = (\<lambda>k m p q lo hi r.
         if k = 0 \<and> 2 \<le> hi
         then Some ([5, 7, 6, 8 :: real], [int p, int q, int p, int q], [2, 4],
                    [1, 1 :: real], 2)
         else if k = 1 \<and> 1 \<le> hi
         then Some ([9, 10], [int p, int q], [2], [2], 1)
         else None)\<rparr>
     [\<lparr>pId = 10, qId = 30\<rparr>, \<lparr>pId = 10, qId = 99\<rparr>, \<lparr>pId = 20, qId = 10\<rparr>,
      \<lparr>pId = 30, qId = 20\<rparr>] 0 0
     \<lparr>depth = [0, 1], explicit_weight_by_depth = None,
      montage_pt_weight = 3, cross_pt_weight = 1/2, inverse_dz = False,
      npts_min = 1, npts_max = 3, choose_random = False\<rparr>
     [30, 10, 20 :: nat]
   = Inr \<lparr>tiles_used = [True, True, True],
          arrays = Some \<lparr>data = [5, 7, 6, 8, 9, 10], indices = [1, 0, 1, 0, 2, 1],
                         indptr = [0, 2, 4, 6], weights = [3, 3, 6]\<rparr>,
          nchunks = 0, zlist = [0, 0]\<rparr>"
proof -
  let ?tf = "\<lparr>nnz_per_row = 2, rows_per_ptmatch = 1,
      CSR_from_tilepair = (\<lambda>k (m :: nat pointmatch) p q (lo :: nat) (hi :: nat) (r :: bool).
         if k = (0 :: nat) \<and> 2 \<le> hi
         then Some ([5, 7, 6, 8 :: real], [int p, int q, int p, int q], [2, 4],
                    [1, 1 :: real], 2 :: nat)
         else if k = 1 \<and> 1 \<le> hi
         then Some ([9, 10], [int p, int q], [2], [2], 1)
         else None)\<rparr>"
  let ?ms = "[\<lparr>pId = 10 :: nat, qId = 30\<rparr>, \<lparr>pId = 10, qId = 99\<rparr>, \<lparr>pId = 20, qId = 10\<rparr>,
      \<lparr>pId = 30, qId = 20\<rparr>]"
  have u2: "[0..<2 :: nat] = [0, 1]" by code_simp
  have ok: "\<forall>k m p q lo hi r blk.
              CSR_from_tilepair ?tf k m p q lo hi r = Some blk \<longrightarrow> block_ok ?tf blk"
    by (auto simp: block_ok_def u2 split: if_splits)
  have ne: "surviving [30, 10, 20 :: nat] ?ms \<noteq> []"
    by (simp add: surviving_def instack_def in1d_def compress_def)
  have run: "calculate_processing_chunk real_div (*) ?tf ?ms 0 0
     \<lparr>depth = [0, 1], explicit_weight_by_depth = None,
      montage_pt_weight = 3, cross_pt_weight = 1/2, inverse_dz = False,
      npts_min = 1, npts_max = 3, choose_random = False\<rparr>
     [30, 10, 20 :: nat]
   = Inr \<lparr>tiles_used = [True, True, True],
          arrays = Some \<lparr>data = [5, 7, 6, 8, 9, 10], indices = [1, 0, 1, 0, 2, 1],
                         indptr = [0, 2, 4, 6], weights = [3, 3, 6]\<rparr>,
          nchunks = 0, zlist = [0, 0]\<rparr>"
    by code_simp
  show ?thesis
    using ne run chunk_csr_invariants [OF ok ne, of real_div "(*)" 0 0]
    by - (rule conjI, assumption, assumption)
qed

section \<open>Properties of the run\<close>

lemma assemble_no_solve:
  "Solve \<notin> set (fst (assemble args db)) \<and> WriteStack \<notin> set (fst (assemble args db))"
  by (auto simp: assemble_def split: sum.splits prod.splits if_splits)

text \<open>
  With the profile-data-load option enabled a run never reaches the solver or the output
  stage; it always ends with an exception.
\<close>

lemma profile_run_never_solves:
  assumes "profile_data_load args"
  shows "Solve \<notin> set (fst (assemble_and_solve args db solve write))
       \<and> WriteStack \<notin> set (fst (assemble_and_solve args db solve write))
       \<and> (\<exists>e. snd (assemble_and_solve args db solve write) = Inl e)
       \<and> (\<forall>tr A. ingest_from_file args = [] \<and> assemble args db = (tr, Inr A) \<longrightarrow>
            assemble_and_solve args db solve write
              = (tr, Inl (NameError ''EMalignerException'')))"
proof (cases "ingest_from_file args = []")
  case False
  then show ?thesis
    by (simp add: assemble_and_solve_def assemble_from_hdf5_def)
next
  case True
  obtain tr res where a: "assemble args db = (tr, res)" by (cases "assemble args db")
  from assemble_no_solve [of args db] a
  have tr: "Solve \<notin> set tr" "WriteStack \<notin> set tr" by simp_all
  show ?thesis
  proof (cases res)
    case (Inl e)
    with True a tr show ?thesis by (simp add: assemble_and_solve_def)
  next
    case (Inr A)
    with True a tr assms show ?thesis by (simp add: assemble_and_solve_def)
  qed
qed

text \<open>
  C9: the claim is that with the profile-data-load option enabled the run exits after
  assembly and before any solve, and that this exit is a requested abort rather than an
  error.  The code attempts exactly that at lines 277-279, with
  \<open>raise EMalignerException("exiting after timing profile")\<close>, but the class name is
  neither defined nor imported in the module.  At the input below (no file options,
  profiling on, assembly from the database succeeding with a matrix, whatever the solver
  and the output stage would do) the run does stop after the assembly and before the
  solve, and what stops it is the NameError of the failed name lookup, a programming
  error, not the intended abort exception.
\<close>

theorem profile_exit_raises_NameError:
  "assemble_and_solve
     \<lparr>ingest_from_file = [], assemble_from_file = [],
      profile_data_load = True, output_mode = ''none''\<rparr>
     (Inr (Some M)) solve write
   = ([AssembleFromDb, MatStats], Inl (NameError ''EMalignerException''))"
  by (simp add: assemble_and_solve_def assemble_def assemble_from_db_def)

section \<open>Properties of the system builder\<close>




















text \<open>
  The slice can also fail.  When the last tile is unused, the inferred column count is
  smaller than the length of \<open>slice_ind\<close>: a release that requires matching lengths
  raises IndexError, one that checks positions accepts the index.  When a used tile has
  a column beyond the inferred column count, both raise.
\<close>

lemma create_CSR_A_index_rule_example:
  "create_CSR_A LengthMustMatch False
     [\<lparr>tileId = 10 :: nat, to_solve_vec = [1, 0 :: int], regularization = [5, 5 :: int],
       DOF_per_tile = 2\<rparr>,
      \<lparr>tileId = 11, to_solve_vec = [1, 1], regularization = [5, 5], DOF_per_tile = 2\<rparr>]
     [\<lparr>tiles_used = [True, False],
       arrays = Some \<lparr>data = [1, 2 :: int], indices = [0, 1], indptr = [0, 2],
                      weights = [1 :: int]\<rparr>,
       nchunks = 0, zlist = [0, 0]\<rparr>]
   = Inl IndexError
   \<and> create_CSR_A IndicesInRange False
     [\<lparr>tileId = 10 :: nat, to_solve_vec = [1, 0 :: int], regularization = [5, 5 :: int],
       DOF_per_tile = 2\<rparr>,
      \<lparr>tileId = 11, to_solve_vec = [1, 1], regularization = [5, 5], DOF_per_tile = 2\<rparr>]
     [\<lparr>tiles_used = [True, False],
       arrays = Some \<lparr>data = [1, 2 :: int], indices = [0, 1], indptr = [0, 2],
                      weights = [1 :: int]\<rparr>,
       nchunks = 0, zlist = [0, 0]\<rparr>]
   = Inr \<lparr>A_sliced = \<lparr>n_cols = 2, row_entries = [[(0, 1), (1, 2)]]\<rparr>,
          weights_diag = [1], x_init = [1, 0], reg_diag = [5, 5],
          tiles_used_all = [True, False]\<rparr>
   \<and> create_CSR_A LengthMustMatch False
     [\<lparr>tileId = 10 :: nat, to_solve_vec = [1, 0 :: int], regularization = [5, 5 :: int],
       DOF_per_tile = 2\<rparr>,
      \<lparr>tileId = 11, to_solve_vec = [1, 1], regularization = [5, 5], DOF_per_tile = 2\<rparr>]
     [\<lparr>tiles_used = [True, True],
       arrays = Some \<lparr>data = [1, 2 :: int], indices = [0, 2], indptr = [0, 2],
                      weights = [1 :: int]\<rparr>,
       nchunks = 0, zlist = [0, 0]\<rparr>]
   = Inl IndexError
   \<and> create_CSR_A IndicesInRange False
     [\<lparr>tileId = 10 :: nat, to_solve_vec = [1, 0 :: int], regularization = [5, 5 :: int],
       DOF_per_tile = 2\<rparr>,
      \<lparr>tileId = 11, to_solve_vec = [1, 1], regularization = [5, 5], DOF_per_tile = 2\<rparr>]
     [\<lparr>tiles_used = [True, True],
       arrays = Some \<lparr>data = [1, 2 :: int], indices = [0, 2], indptr = [0, 2],
                      weights = [1 :: int]\<rparr>,
       nchunks = 0, zlist = [0, 0]\<rparr>]
   = Inl IndexError"
  by code_simp

end
